theory Spec2Isabelle
  imports Complex_Main "HOL-Library.Multiset" "HOL-Library.AList"
begin

section \<open>The analytics engine of trajecta\<close>

text \<open>
  A shallow embedding of the analytics module (the file that exports
  \<open>calculateConsistencyScore\<close>, \<open>calculateLearningVelocity\<close>, \<open>calculateProjectDepth\<close>,
  \<open>calculateDepthBreadthRatio\<close>, \<open>calculateSkillGrowthTrend\<close>, \<open>analyzeCommitPatterns\<close>,
  \<open>identifyNewLanguages\<close> and \<open>identifyGrowthLanguages\<close>) and of the row types of
  \<open>drizzle/schema.ts\<close> it works on.

  Conventions of the embedding:
  \<^item> a \<open>Date\<close> is its time value, an \<open>int\<close> of milliseconds since the epoch (the rows come
    from \<open>timestamp(...).notNull()\<close> columns, so every date of a row is a valid one);
  \<^item> the \<open>int\<close> columns are \<open>int\<close>, array lengths are \<open>nat\<close>;
  \<^item> a computed JavaScript \<open>number\<close> is an IEEE 754 binary64 value, modelled by the real
    number it denotes; every arithmetic operation of the source is the exact operation
    followed by the rounding \<open>fl\<close> to the nearest binary64 value (section Numbers);
  \<^item> what the source reads from its host (the clock behind \<open>new Date()\<close>, the local time
    zone behind \<open>getDate\<close>, \<open>setDate\<close> and \<open>getDay\<close>) is a \<open>host\<close> record passed to the
    function that reads it; the engine's limit on the number of arguments of a call is a
    parameter of the function that spreads an array into a call;
  \<^item> a function that writes to an array of its caller returns that array's new contents
    beside its result;
  \<^item> a function that can throw returns a sum, \<open>Inl\<close> the error.
\<close>

subsection \<open>Rows (drizzle/schema.ts)\<close>

record Commit =
  commit_id :: int
  commit_userId :: int
  repositoryId :: int
  commitHash :: string
  message :: "string option"
  authorName :: "string option"
  authorEmail :: "string option"
  committedAt :: int
  additions :: int
  deletions :: int
  filesChanged :: int
  commit_createdAt :: int

record Repository =
  repo_id :: int
  repo_userId :: int
  githubRepoId :: string
  repo_name :: string
  repo_url :: string
  repo_description :: "string option"
  repo_language :: "string option"
  stars :: int
  forks :: int
  repo_size :: int
  isPrivate :: bool
  repo_createdAt :: int
  repo_updatedAt :: int

record LanguageProficiency =
  lp_id :: int
  lp_userId :: int
  language :: string
  commitCount :: int
  repositoryCount :: int
  firstSeenAt :: int
  lastSeenAt :: int
  lp_createdAt :: int
  lp_updatedAt :: int

text \<open>The element type of the array \<open>identifyGrowthLanguages\<close> returns.\<close>

record GrowthLanguage =
  g_language :: string
  g_commitCount :: int
  growth :: string

text \<open>The object \<open>analyzeCommitPatterns\<close> returns.\<close>

record CommitPatterns =
  averageCommitsPerDay :: real
  peakDay :: string
  burstyPattern :: bool
  consistentPattern :: bool

subsection \<open>The host: clock and local time zone\<close>

text \<open>
  \<open>clock\<close> is the time value \<open>new Date()\<close> yields at the call. \<open>localTZA_utc t\<close> is the
  offset of the local zone at the UTC instant \<open>t\<close>, \<open>localTZA_local t\<close> the offset the zone
  assigns to the local time value \<open>t\<close> (ECMAScript's \<open>LocalTZA(t, true)\<close> and
  \<open>LocalTZA(t, false)\<close>), both in milliseconds.
\<close>

record host =
  clock :: int
  localTZA_utc :: "int \<Rightarrow> int"
  localTZA_local :: "int \<Rightarrow> int"

definition utcHost :: "int \<Rightarrow> host" where
  "utcHost now = \<lparr>clock = now, localTZA_utc = (\<lambda>_. 0), localTZA_local = (\<lambda>_. 0)\<rparr>"

definition msPerDay :: int where
  "msPerDay = 1000 * 60 * 60 * 24"

definition LocalTime :: "host \<Rightarrow> int \<Rightarrow> int" where
  "LocalTime h t = t + localTZA_utc h t"

definition UTC :: "host \<Rightarrow> int \<Rightarrow> int" where
  "UTC h t = t - localTZA_local h t"

text \<open>\<open>TimeClip\<close>: a time value beyond 8.64e15 ms is the invalid date (\<open>NaN\<close>), here \<open>None\<close>.\<close>

definition TimeClip :: "int \<Rightarrow> int option" where
  "TimeClip t = (if \<bar>t\<bar> > 8640000000000000 then None else Some t)"

text \<open>
  The calendar of ECMAScript's \<open>Date\<close> (the abstract operations of the language standard,
  section "Date Objects"): day number and time within the day, the first day of a year,
  the year of a time value as the last year that starts no later, the day within the
  year, the month (0 for January) and the day of the month. \<open>YearFromTime\<close> searches
  the years between two estimates, a year having 365 or 366 days. \<open>InLeapYear\<close> takes
  the year. \<open>monthStart m leap\<close> is the day within the year of the first of month \<open>m\<close>.
\<close>

definition Day :: "int \<Rightarrow> int" where
  "Day t = t div msPerDay"

definition TimeWithinDay :: "int \<Rightarrow> int" where
  "TimeWithinDay t = t mod msPerDay"

definition DayFromYear :: "int \<Rightarrow> int" where
  "DayFromYear y =
     365 * (y - 1970) + (y - 1969) div 4 - (y - 1901) div 100 + (y - 1601) div 400"

definition YearFromTime :: "int \<Rightarrow> int" where
  "YearFromTime t =
     (let d = Day t;
          lo = 1970 + min (d div 365) (d div 366);
          hi = 1971 + max (d div 365) (d div 366)
      in fold (\<lambda>y best. if DayFromYear y \<le> d then y else best) [lo..hi] lo)"

definition InLeapYear :: "int \<Rightarrow> int" where
  "InLeapYear y =
     (if y mod 4 \<noteq> 0 then 0 else if y mod 100 \<noteq> 0 then 1 else if y mod 400 \<noteq> 0 then 0 else 1)"

definition DayWithinYear :: "int \<Rightarrow> int" where
  "DayWithinYear t = Day t - DayFromYear (YearFromTime t)"

definition monthStart :: "int \<Rightarrow> int \<Rightarrow> int" where
  "monthStart m leap =
     (if m = 0 then 0 else if m = 1 then 31 else if m = 2 then 59 + leap
      else if m = 3 then 90 + leap else if m = 4 then 120 + leap
      else if m = 5 then 151 + leap else if m = 6 then 181 + leap
      else if m = 7 then 212 + leap else if m = 8 then 243 + leap
      else if m = 9 then 273 + leap else if m = 10 then 304 + leap else 334 + leap)"

definition MonthFromTime :: "int \<Rightarrow> int" where
  "MonthFromTime t =
     (let d = DayWithinYear t; leap = InLeapYear (YearFromTime t)
      in if d < 31 then 0 else if d < 59 + leap then 1 else if d < 90 + leap then 2
         else if d < 120 + leap then 3 else if d < 151 + leap then 4
         else if d < 181 + leap then 5 else if d < 212 + leap then 6
         else if d < 243 + leap then 7 else if d < 273 + leap then 8
         else if d < 304 + leap then 9 else if d < 334 + leap then 10 else 11)"

definition DateFromTime :: "int \<Rightarrow> int" where
  "DateFromTime t =
     DayWithinYear t - monthStart (MonthFromTime t) (InLeapYear (YearFromTime t)) + 1"

text \<open>
  \<open>MakeDay\<close> counts \<open>date - 1\<close> days from the first of the month, whatever the sign or
  size of \<open>date\<close>; a month outside 0 to 11 carries into the year.
\<close>

definition MakeDay :: "int \<Rightarrow> int \<Rightarrow> int \<Rightarrow> int" where
  "MakeDay year month date =
     (let ym = year + month div 12; mn = month mod 12
      in DayFromYear ym + monthStart mn (InLeapYear ym) + date - 1)"

definition MakeDate :: "int \<Rightarrow> int \<Rightarrow> int" where
  "MakeDate day time = day * msPerDay + time"

text \<open>
  \<open>Date.prototype.getDate\<close> and \<open>Date.prototype.setDate\<close> work in local time; \<open>setDate\<close>
  yields the new time value of the date object, \<open>None\<close> for the invalid date.
\<close>

definition getDate :: "host \<Rightarrow> int \<Rightarrow> int" where
  "getDate h t = DateFromTime (LocalTime h t)"

definition setDate :: "host \<Rightarrow> int \<Rightarrow> int \<Rightarrow> int option" where
  "setDate h t date =
     (let t' = LocalTime h t;
          newDate = MakeDate (MakeDay (YearFromTime t') (MonthFromTime t') date) (TimeWithinDay t')
      in TimeClip (UTC h newDate))"

text \<open>
  \<open>const cutoffDate = new Date(); cutoffDate.setDate(cutoffDate.getDate() - timeWindowDays)\<close>.
  The window is an \<open>int\<close>, a whole number of days: the callers pass 90 or leave the
  default of 90.
\<close>

definition cutoffDate :: "host \<Rightarrow> int \<Rightarrow> int option" where
  "cutoffDate h timeWindowDays =
     setDate h (clock h) (getDate h (clock h) - timeWindowDays)"

text \<open>\<open>date >= cutoffDate\<close> on two \<open>Date\<close>s compares the time values; against \<open>NaN\<close> it is false.\<close>

definition date_ge :: "int \<Rightarrow> int option \<Rightarrow> bool" where
  "date_ge t cutoff = (case cutoff of None \<Rightarrow> False | Some c \<Rightarrow> c \<le> t)"

subsection \<open>Numbers\<close>

text \<open>
  A binary64 number other than zero is \<open>m * 2 ^ k\<close> with an integer \<open>m\<close> of 53 bits,
  \<open>2 ^ 52 \<le> \<bar>m\<bar> < 2 ^ 53\<close>. \<open>ulp x\<close> is the \<open>2 ^ k\<close> of the numbers of the magnitude of
  \<open>x\<close>, and \<open>fl x\<close> is the binary64 number nearest to \<open>x\<close>, the one with the even \<open>m\<close> of two
  that are equally near (\<open>rne\<close>, round to nearest, ties to even).

  The exponent range of binary64 is not modelled. The inputs of the engine are integers
  below \<open>2 ^ 53\<close> in magnitude (array lengths, 32-bit columns, time values of valid dates),
  and no result of its arithmetic on them reaches \<open>2 ^ 1024\<close> or falls below \<open>2 ^ -1022\<close>
  without being zero. A division of zero by zero, the only source of \<open>NaN\<close> in this
  arithmetic, is behind a guard of the source wherever it could occur.
\<close>

definition rne :: "real \<Rightarrow> int" where
  "rne y =
     (let n = \<lfloor>y\<rfloor>
      in if y - of_int n < 1 / 2 then n
         else if y - of_int n > 1 / 2 then n + 1
         else if even n then n else n + 1)"

definition ulp :: "real \<Rightarrow> real" where
  "ulp x = 2 powr of_int (\<lfloor>log 2 \<bar>x\<bar>\<rfloor> - 52)"

definition fl :: "real \<Rightarrow> real" where
  "fl x = (if x = 0 then 0 else of_int (rne (x / ulp x)) * ulp x)"

text \<open>
  The operators \<open>+\<close>, \<open>-\<close>, \<open>*\<close>, \<open>/\<close> on numbers and \<open>Math.sqrt\<close> are correctly rounded.
  ECMAScript leaves the precision of \<open>Math.pow\<close> to the engine; \<open>Math.pow(x, 2)\<close> is
  taken as the rounded product \<open>x * x\<close>.
  A decimal literal of the source is the binary64 number nearest to it.
\<close>

definition fadd :: "real \<Rightarrow> real \<Rightarrow> real" where
  "fadd a b = fl (a + b)"

definition fsub :: "real \<Rightarrow> real \<Rightarrow> real" where
  "fsub a b = fl (a - b)"

definition fmul :: "real \<Rightarrow> real \<Rightarrow> real" where
  "fmul a b = fl (a * b)"

definition fdiv :: "real \<Rightarrow> real \<Rightarrow> real" where
  "fdiv a b = fl (a / b)"

definition fsqrt :: "real \<Rightarrow> real" where
  "fsqrt a = fl (sqrt a)"

definition Math_pow2 :: "real \<Rightarrow> real" where
  "Math_pow2 x = fl (x * x)"

text \<open>
  \<open>Math.round\<close>: the integer nearest to the number itself, a tie going up; no rounding of
  an intermediate sum is involved.
\<close>

definition Math_round :: "real \<Rightarrow> real" where
  "Math_round x = of_int \<lfloor>x + 1 / 2\<rfloor>"

text \<open>
  \<open>parseFloat(x.toFixed(2))\<close>. \<open>toFixed\<close> works on the absolute value and puts the sign
  back; from 1e21 on it prints the number itself; below, it prints \<open>n / 100\<close> for the
  integer \<open>n\<close> nearest to 100 times the number itself, the larger one of two. \<open>parseFloat\<close>
  reads the text as the binary64 number nearest to it.
\<close>

definition toFixed2_abs :: "real \<Rightarrow> real" where
  "toFixed2_abs x = (if x \<ge> 10 ^ 21 then x else fl (of_int \<lfloor>x * 100 + 1 / 2\<rfloor> / 100))"

definition toFixed2 :: "real \<Rightarrow> real" where
  "toFixed2 x = (if x < 0 then - toFixed2_abs (- x) else toFixed2_abs x)"

subsection \<open>Arrays\<close>

text \<open>
  \<open>Array.prototype.sort(compareFn)\<close> sorts the array in place and is stable. With a
  comparator that is a consistent ordering, as a difference of two integer keys is, the
  outcome is the one of inserting each element before the first element it does not
  have to follow.
\<close>

fun insert_by :: "('a \<Rightarrow> 'a \<Rightarrow> int) \<Rightarrow> 'a \<Rightarrow> 'a list \<Rightarrow> 'a list" where
  "insert_by cmp x [] = [x]"
| "insert_by cmp x (y # ys) =
     (if cmp x y \<le> 0 then x # y # ys else y # insert_by cmp x ys)"

definition array_sort :: "('a \<Rightarrow> 'a \<Rightarrow> int) \<Rightarrow> 'a list \<Rightarrow> 'a list" where
  "array_sort cmp xs = foldr (insert_by cmp) xs []"

text \<open>\<open>xs.slice(0, end)\<close>: a negative \<open>end\<close> counts from the end of the array.\<close>

definition slice0 :: "int \<Rightarrow> 'a list \<Rightarrow> 'a list" where
  "slice0 e xs =
     (let len = int (length xs);
          final = (if e < 0 then max (len + e) 0 else min e len)
      in take (nat final) xs)"

subsection \<open>identifyGrowthLanguages\<close>

definition growthTier :: "int \<Rightarrow> string" where
  "growthTier c = (if c > 100 then ''High'' else if c > 50 then ''Medium'' else ''Low'')"

definition byCommitCountDesc :: "LanguageProficiency \<Rightarrow> LanguageProficiency \<Rightarrow> int" where
  "byCommitCountDesc a b = commitCount b - commitCount a"

text \<open>
  The first component is the contents of the caller's \<open>languages\<close> array after the call
  (\<open>languages.sort\<close> sorts that very array), the second the returned array.
\<close>

definition identifyGrowthLanguages ::
  "LanguageProficiency list \<Rightarrow> int \<Rightarrow> LanguageProficiency list \<times> GrowthLanguage list" where
  "identifyGrowthLanguages languages topN =
     (let sorted = array_sort byCommitCountDesc languages
      in (sorted,
          map (\<lambda>lang. \<lparr>g_language = language lang,
                        g_commitCount = commitCount lang,
                        growth = growthTier (commitCount lang)\<rparr>)
              (slice0 topN sorted)))"

subsection \<open>identifyNewLanguages\<close>

definition identifyNewLanguages :: "host \<Rightarrow> LanguageProficiency list \<Rightarrow> int \<Rightarrow> string list" where
  "identifyNewLanguages h languages timeWindowDays =
     (let cutoff = cutoffDate h timeWindowDays
      in map language (filter (\<lambda>lang. date_ge (firstSeenAt lang) cutoff) languages))"

subsection \<open>calculateSkillGrowthTrend\<close>

definition calculateSkillGrowthTrend ::
  "host \<Rightarrow> LanguageProficiency list \<Rightarrow> Commit list \<Rightarrow> int \<Rightarrow> real" where
  "calculateSkillGrowthTrend h currentLanguages commits timeWindowDays =
     (if length currentLanguages = 0 then 0
      else
        let cutoff = cutoffDate h timeWindowDays;
            recentCommits = filter (\<lambda>c. date_ge (committedAt c) cutoff) commits
        in if length recentCommits = 0 then 0
           else
             let growthPercentage =
                   fmul (fdiv (real (length recentCommits)) (real (length commits))) 100
             in min 100 (Math_round growthPercentage))"

subsection \<open>calculateConsistencyScore\<close>

text \<open>
  \<open>commit.committedAt.toISOString().split('T')[0]\<close> is the UTC calendar date of the commit
  as text: year, month (01 to 12) and day of the month, joined by hyphens, the year with
  a sign and six digits outside 0 to 9999. The text and the three numbers determine each
  other, so the key of the bucket is the triple of the numbers.
\<close>

definition isoDate :: "int \<Rightarrow> int \<times> int \<times> int" where
  "isoDate t = (YearFromTime t, MonthFromTime t + 1, DateFromTime t)"

text \<open>
  \<open>obj[k] = (obj[k] || 0) + 1\<close> on an object whose keys are kept in insertion order: the
  count of a key that is present is replaced where it stands, a new key goes to the end.
\<close>

definition bump :: "('k \<times> nat) list \<Rightarrow> 'k \<Rightarrow> ('k \<times> nat) list" where
  "bump obj k =
     AList.update k ((case map_of obj k of None \<Rightarrow> 0 | Some c \<Rightarrow> c) + 1) obj"

definition commitsByDay :: "Commit list \<Rightarrow> ((int \<times> int \<times> int) \<times> nat) list" where
  "commitsByDay commits = foldl (\<lambda>obj commit. bump obj (isoDate (committedAt commit))) [] commits"

text \<open>
  The mean and the population variance, as the two \<open>reduce\<close> calls compute them: each
  step of a \<open>reduce\<close> rounds its sum.
\<close>

definition mean_of :: "nat list \<Rightarrow> real" where
  "mean_of counts =
     fdiv (foldl (\<lambda>a b. fadd a (real b)) 0 counts) (real (length counts))"

definition variance_of :: "nat list \<Rightarrow> real" where
  "variance_of counts =
     fdiv (foldl (\<lambda>sum count. fadd sum (Math_pow2 (fsub (real count) (mean_of counts)))) 0 counts)
       (real (length counts))"

definition calculateConsistencyScore :: "Commit list \<Rightarrow> real" where
  "calculateConsistencyScore commits =
     (if length commits = 0 then 0
      else
        let dailyCounts = map snd (commitsByDay commits)
        in if length dailyCounts = 0 then 0
           else
             let mean = mean_of dailyCounts;
                 variance = variance_of dailyCounts;
                 stdDev = fsqrt variance;
                 cv = (if mean = 0 then 0 else fdiv stdDev mean);
                 score = max 0 (min 100 (fsub 100 (fmul cv 50)))
             in Math_round score)"

text \<open>
  The score in terms of UTC days. \<open>utcDayNumber\<close> is the number of the UTC day of a
  time value, \<open>dayCounts\<close> the number of commits of each UTC day that has one, the days in
  the order of their first commit in the list, and \<open>cv_binary64\<close> the coefficient of
  variation of such counts in binary64 arithmetic.
\<close>

definition utcDayNumber :: "int \<Rightarrow> int" where
  "utcDayNumber t = t div 86400000"

fun firstOccurrences :: "'a list \<Rightarrow> 'a list" where
  "firstOccurrences [] = []"
| "firstOccurrences (x # xs) = x # filter (\<lambda>y. y \<noteq> x) (firstOccurrences xs)"

definition dayCounts :: "Commit list \<Rightarrow> nat list" where
  "dayCounts commits =
     map (\<lambda>d. length (filter (\<lambda>c. utcDayNumber (committedAt c) = d) commits))
       (firstOccurrences (map (\<lambda>c. utcDayNumber (committedAt c)) commits))"

definition cv_binary64 :: "nat list \<Rightarrow> real" where
  "cv_binary64 counts =
     (if mean_of counts = 0 then 0 else fdiv (fsqrt (variance_of counts)) (mean_of counts))"

definition clamp :: "real \<Rightarrow> real \<Rightarrow> real \<Rightarrow> real" where
  "clamp x lo hi = max lo (min hi x)"




subsection \<open>calculateLearningVelocity\<close>

text \<open>
  \<open>Math.min(...dates)\<close> and \<open>Math.max(...dates)\<close> pass every element of \<open>dates\<close> as an
  argument of the call. An engine accepts a limited number of arguments and throws a
  \<open>RangeError\<close> beyond; \<open>maxArguments\<close> is the limit of the engine that runs the code. Both
  calls are behind the guard on \<open>commits.length\<close>, so the array is not empty.
\<close>

datatype error = RangeError

definition calculateLearningVelocity :: "nat \<Rightarrow> Commit list \<Rightarrow> error + real" where
  "calculateLearningVelocity maxArguments commits =
     (if length commits = 0 then Inr 0
      else
        let dates = map committedAt commits
        in if length dates > maxArguments then Inl RangeError
           else
             let minDate = Min (set dates);
                 maxDate = Max (set dates);
                 daysDiff = fdiv (fsub (real_of_int maxDate) (real_of_int minDate))
                              (real_of_int msPerDay)
             in if daysDiff = 0 then Inr (real (length commits))
                else Inr (toFixed2 (fdiv (real (length commits)) daysDiff)))"

text \<open>Rounding to two decimals as the specification words it, in exact arithmetic.\<close>

definition round2 :: "real \<Rightarrow> real" where
  "round2 x = of_int (round (100 * x)) / 100"

subsection \<open>calculateProjectDepth\<close>

definition calculateProjectDepth :: "Repository list \<Rightarrow> Commit list \<Rightarrow> real" where
  "calculateProjectDepth repositories commits =
     (if length repositories = 0 then 0
      else
        let avgSize = fdiv (foldl (\<lambda>sum repo. fadd sum (real_of_int (repo_size repo))) 0
                              repositories)
                        (real (length repositories));
            sizeScore = min 100 (fmul (fdiv avgSize 1000) 100);
            commitDensity = fdiv (real (length commits)) (real (length repositories));
            densityScore = min 100 (fmul commitDensity 5);
            depthScore = fadd (fmul sizeScore (fl (4 / 10))) (fmul densityScore (fl (6 / 10)))
        in Math_round depthScore)"

subsection \<open>calculateDepthBreadthRatio\<close>

definition calculateDepthBreadthRatio ::
  "Repository list \<Rightarrow> Commit list \<Rightarrow> LanguageProficiency list \<Rightarrow> real" where
  "calculateDepthBreadthRatio repositories commits languages =
     (if length repositories = 0 \<or> length languages = 0 then 0
      else
        let depth = fdiv (real (length commits)) (real (length repositories));
            breadth = real (length languages)
        in toFixed2 (fdiv depth breadth))"

subsection \<open>analyzeCommitPatterns\<close>

text \<open>\<open>getDay\<close>: the day of the week of the local time, 0 for Sunday; day 0 was a Thursday.\<close>

definition getDay :: "host \<Rightarrow> int \<Rightarrow> nat" where
  "getDay h t = nat ((Day (LocalTime h t) + 4) mod 7)"

definition dayNames :: "string list" where
  "dayNames = [''Sunday'', ''Monday'', ''Tuesday'', ''Wednesday'', ''Thursday'', ''Friday'',
     ''Saturday'']"

text \<open>
  \<open>commitsByDayOfWeek\<close> has the integer keys 0 to 6; \<open>Object.entries\<close> and \<open>Object.values\<close>
  enumerate integer keys in ascending order, whatever the order of insertion.
\<close>

definition bumpDayOfWeek :: "(nat \<rightharpoonup> nat) \<Rightarrow> nat \<Rightarrow> (nat \<rightharpoonup> nat)" where
  "bumpDayOfWeek obj k = obj(k \<mapsto> (case obj k of None \<Rightarrow> 0 | Some c \<Rightarrow> c) + 1)"

definition commitsByDayOfWeek :: "host \<Rightarrow> Commit list \<Rightarrow> (nat \<rightharpoonup> nat)" where
  "commitsByDayOfWeek h commits =
     foldl (\<lambda>obj commit. bumpDayOfWeek obj (getDay h (committedAt commit))) Map.empty commits"

definition entries :: "(nat \<rightharpoonup> nat) \<Rightarrow> (nat \<times> nat) list" where
  "entries obj = concat (map (\<lambda>k. case obj k of None \<Rightarrow> [] | Some c \<Rightarrow> [(k, c)]) [0..<7])"

text \<open>The loop that finds the peak day; the state is \<open>(peakDay, maxCommits)\<close>.\<close>

definition findPeak :: "(nat \<times> nat) list \<Rightarrow> nat \<times> nat" where
  "findPeak es =
     foldl (\<lambda>(peakDay, maxCommits) (day, count).
              if count > maxCommits then (day, count) else (peakDay, maxCommits))
       (0, 0) es"

definition analyzeCommitPatterns :: "host \<Rightarrow> Commit list \<Rightarrow> CommitPatterns" where
  "analyzeCommitPatterns h commits =
     (if length commits = 0 then
        \<lparr>averageCommitsPerDay = 0, peakDay = ''Monday'',
         burstyPattern = False, consistentPattern = False\<rparr>
      else
        let obj = commitsByDayOfWeek h commits;
            peak = fst (findPeak (entries obj));
            values = map snd (entries obj);
            mean = mean_of values;
            variance = variance_of values;
            stdDev = fsqrt variance
        in \<lparr>averageCommitsPerDay = toFixed2 (fdiv (real (length commits)) 7),
            peakDay = dayNames ! peak,
            burstyPattern = (stdDev > fmul mean (fl (5 / 10))),
            consistentPattern = (stdDev < fmul mean (fl (3 / 10)))\<rparr>)"

subsection \<open>Rows for the examples\<close>

text \<open>A language row with the given name, commit count and first-seen time.\<close>

definition mkLanguage :: "string \<Rightarrow> int \<Rightarrow> int \<Rightarrow> LanguageProficiency" where
  "mkLanguage name n seen =
     \<lparr>lp_id = 1, lp_userId = 1, language = name, commitCount = n, repositoryCount = 1,
      firstSeenAt = seen, lastSeenAt = seen, lp_createdAt = seen, lp_updatedAt = seen\<rparr>"

text \<open>A commit row with the given commit time, repository and change counts.\<close>

definition mkCommit :: "int \<Rightarrow> int \<Rightarrow> int \<Rightarrow> int \<Rightarrow> int \<Rightarrow> Commit" where
  "mkCommit t repo adds dels files =
     \<lparr>commit_id = 1, commit_userId = 1, repositoryId = repo, commitHash = ''abc123'',
      message = Some ''test'', authorName = Some ''Test'', authorEmail = None,
      committedAt = t, additions = adds, deletions = dels, filesChanged = files,
      commit_createdAt = t\<rparr>"

text \<open>A repository row with the given size in kilobytes.\<close>

definition mkRepository :: "int \<Rightarrow> Repository" where
  "mkRepository kb =
     \<lparr>repo_id = 1, repo_userId = 1, githubRepoId = ''123'', repo_name = ''repo'',
      repo_url = ''https://example.org/repo'', repo_description = None,
      repo_language = Some ''TypeScript'', stars = 0, forks = 0, repo_size = kb,
      isPrivate = False, repo_createdAt = 0, repo_updatedAt = 0\<rparr>"

text \<open>One commit at the start of each of the given UTC days, in the order given.\<close>

definition commitsOnDays :: "int list \<Rightarrow> Commit list" where
  "commitsOnDays days = map (\<lambda>d. mkCommit (d * 86400000) 1 10 5 2) days"

subsection \<open>The window of identifyNewLanguages as the specification words it\<close>

text \<open>
  Section 8 of the specification: the languages whose \<open>firstSeenAt\<close> falls within
  \<open>[now - windowDays, now]\<close>, both ends included, in the order of the input.
\<close>

definition newLanguages_spec :: "int \<Rightarrow> LanguageProficiency list \<Rightarrow> int \<Rightarrow> string list" where
  "newLanguages_spec now languages windowDays =
     map language
       (filter (\<lambda>lang. now - windowDays * msPerDay \<le> firstSeenAt lang \<and> firstSeenAt lang \<le> now)
          languages)"

section \<open>Properties\<close>

subsection \<open>The calendar\<close>

text \<open>
  The year found by \<open>YearFromTime\<close> is the one the standard asks for, the last year that
  starts no later than the time value; the day within the year and the day of the month
  stay within the year and the month.
\<close>

lemma div_succ:
  fixes a n :: int
  assumes "0 < n"
  shows "(a + 1) div n = a div n + (if (a + 1) mod n = 0 then 1 else 0)"
proof (cases "a mod n + 1 = n")
  case True
  have a: "a + 1 = n * (a div n + 1) + 0"
    using True by (simp add: algebra_simps) (metis add.commute mult_div_mod_eq add.assoc mult.commute)
  have "(a + 1) div n = a div n + 1"
    using int_div_pos_eq[OF a] assms by simp
  moreover have "(a + 1) mod n = 0"
    using int_mod_pos_eq[OF a] assms by simp
  ultimately show ?thesis by simp
next
  case False
  have r: "0 \<le> a mod n + 1" "a mod n + 1 < n"
    using assms False pos_mod_bound[of n a] pos_mod_sign[of n a] by linarith+
  have a: "a + 1 = n * (a div n) + (a mod n + 1)" by simp
  have "(a + 1) div n = a div n" by (rule int_div_pos_eq[OF a r])
  moreover have "(a + 1) mod n = a mod n + 1" by (rule int_mod_pos_eq[OF a r])
  moreover have "0 \<le> a mod n" using assms by simp
  ultimately show ?thesis by simp
qed

lemma mod_shift4: "(y - 1968) mod 4 = y mod (4::int)"
  by algebra

lemma mod_shift100: "(y - 1900) mod 100 = y mod (100::int)"
  by algebra

lemma mod_shift400: "(y - 1600) mod 400 = y mod (400::int)"
  by algebra

lemma DayFromYear_step: "DayFromYear (y + 1) = DayFromYear y + 365 + InLeapYear y"
proof -
  have 4: "(y - 1968) div 4 = (y - 1969) div 4 + (if y mod 4 = 0 then 1 else 0)"
    using div_succ[of 4 "y - 1969"] mod_shift4[of y] by simp
  have 100: "(y - 1900) div 100 = (y - 1901) div 100 + (if y mod 100 = 0 then 1 else 0)"
    using div_succ[of 100 "y - 1901"] mod_shift100[of y] by simp
  have 400: "(y - 1600) div 400 = (y - 1601) div 400 + (if y mod 400 = 0 then 1 else 0)"
    using div_succ[of 400 "y - 1601"] mod_shift400[of y] by simp
  have m100: "y mod 100 = 0 \<Longrightarrow> y mod 4 = 0"
  proof -
    assume "y mod 100 = 0"
    then have "100 dvd y" by (rule mod_0_imp_dvd)
    moreover have "(4::int) dvd 100" by simp
    ultimately have "4 dvd y" by (rule dvd_trans[rotated])
    then show "y mod 4 = 0" by (rule dvd_imp_mod_0)
  qed
  have m400: "y mod 400 = 0 \<Longrightarrow> y mod 100 = 0"
  proof -
    assume "y mod 400 = 0"
    then have "400 dvd y" by (rule mod_0_imp_dvd)
    moreover have "(100::int) dvd 400" by simp
    ultimately have "100 dvd y" by (rule dvd_trans[rotated])
    then show "y mod 100 = 0" by (rule dvd_imp_mod_0)
  qed
  define b4 :: int where "b4 = (if y mod 4 = 0 then 1 else 0)"
  define b100 :: int where "b100 = (if y mod 100 = 0 then 1 else 0)"
  define b400 :: int where "b400 = (if y mod 400 = 0 then 1 else 0)"
  have leap: "InLeapYear y = b4 - b100 + b400"
    using m100 m400 unfolding InLeapYear_def b4_def b100_def b400_def
    by (cases "y mod 4 = 0"; cases "y mod 100 = 0"; cases "y mod 400 = 0") simp_all
  have "DayFromYear (y + 1) =
        365 * (y - 1969) + (y - 1968) div 4 - (y - 1900) div 100 + (y - 1600) div 400"
    by (simp add: DayFromYear_def)
  also have "\<dots> = 365 * (y - 1969) + ((y - 1969) div 4 + b4) - ((y - 1901) div 100 + b100)
                    + ((y - 1601) div 400 + b400)"
    by (simp only: 4 100 400 b4_def b100_def b400_def)
  also have "\<dots> = DayFromYear y + 365 + (b4 - b100 + b400)"
    unfolding DayFromYear_def by (simp add: algebra_simps)
  finally show ?thesis by (simp only: leap)
qed


lemma InLeapYear_range: "0 \<le> InLeapYear y \<and> InLeapYear y \<le> 1"
  by (simp add: InLeapYear_def)

lemma DayFromYear_1970: "DayFromYear 1970 = 0"
  by (simp add: DayFromYear_def)

lemma DayFromYear_upper: "0 \<le> k \<Longrightarrow> 365 * k \<le> DayFromYear (1970 + k) \<and> DayFromYear (1970 + k) \<le> 366 * k"
proof (induction k rule: int_ge_induct)
  case base
  show ?case by (simp add: DayFromYear_1970)
next
  case (step i)
  have "DayFromYear (1970 + (i + 1)) = DayFromYear (1970 + i) + 365 + InLeapYear (1970 + i)"
    using DayFromYear_step[of "1970 + i"] by (simp add: add.assoc)
  with step.IH InLeapYear_range[of "1970 + i"] show ?case by auto
qed

lemma DayFromYear_lower: "k \<le> 0 \<Longrightarrow> 366 * k \<le> DayFromYear (1970 + k) \<and> DayFromYear (1970 + k) \<le> 365 * k"
proof (induction k rule: int_le_induct)
  case base
  show ?case by (simp add: DayFromYear_1970)
next
  case (step i)
  have "DayFromYear (1970 + i) = DayFromYear (1970 + (i - 1)) + 365 + InLeapYear (1970 + (i - 1))"
    using DayFromYear_step[of "1970 + (i - 1)"] by (simp add: algebra_simps)
  with step.IH InLeapYear_range[of "1970 + (i - 1)"] show ?case by auto
qed

lemma DayFromYear_mono: "y \<le> y' \<Longrightarrow> DayFromYear y \<le> DayFromYear y'"
proof (induction y' rule: int_ge_induct)
  case base
  show ?case by simp
next
  case (step i)
  with DayFromYear_step[of i] InLeapYear_range[of i] show ?case by auto
qed

lemma below_next_multiple: "(r::int) < n \<Longrightarrow> n * q + r = d \<Longrightarrow> d < n * (q + 1)"
  by (auto simp: algebra_simps)

lemma fold_last_true:
  fixes P :: "int \<Rightarrow> bool"
  assumes "lo \<le> j" and "P lo"
  shows "(let r = fold (\<lambda>y best. if P y then y else best) [lo..j] lo
          in lo \<le> r \<and> r \<le> j \<and> P r \<and> (\<forall>y. r < y \<and> y \<le> j \<longrightarrow> \<not> P y))"
  using assms(1)
proof (induction j rule: int_ge_induct)
  case base
  show ?case using assms(2) by (auto simp: Let_def)
next
  case (step i)
  have split: "[lo..i + 1] = [lo..i] @ [i + 1]"
    using step.hyps by (simp add: upto_rec2)
  define r0 where "r0 = fold (\<lambda>y best. if P y then y else best) [lo..i] lo"
  have ih: "lo \<le> r0" "r0 \<le> i" "P r0" "\<forall>y. r0 < y \<and> y \<le> i \<longrightarrow> \<not> P y"
    using step.IH by (simp_all add: Let_def r0_def)
  have next_r: "fold (\<lambda>y best. if P y then y else best) [lo..i + 1] lo =
             (if P (i + 1) then i + 1 else r0)"
    by (simp add: split r0_def)
  show ?case
  proof (cases "P (i + 1)")
    case True
    then show ?thesis using step.hyps unfolding Let_def next_r by auto
  next
    case False
    have "\<forall>y. r0 < y \<and> y \<le> i + 1 \<longrightarrow> \<not> P y"
    proof (intro allI impI)
      fix y assume a: "r0 < y \<and> y \<le> i + 1"
      show "\<not> P y"
      proof (cases "y = i + 1")
        case True
        with False show ?thesis by simp
      next
        case F: False
        with a have "r0 < y \<and> y \<le> i" by simp
        with ih(4) show ?thesis by blast
      qed
    qed
    with False ih show ?thesis unfolding Let_def next_r by simp
  qed
qed

lemma YearFromTime_spec:
  "DayFromYear (YearFromTime t) \<le> Day t \<and> Day t < DayFromYear (YearFromTime t + 1)"
proof -
  define d where "d = Day t"
  define lo where "lo = 1970 + min (d div 365) (d div 366)"
  define hi where "hi = 1971 + max (d div 365) (d div 366)"
  have lo_ok: "DayFromYear lo \<le> d"
  proof (cases "0 \<le> d")
    case True
    then have k: "0 \<le> d div 366" by (simp add: pos_imp_zdiv_nonneg_iff)
    have "lo \<le> 1970 + d div 366" by (simp add: lo_def)
    then have "DayFromYear lo \<le> DayFromYear (1970 + d div 366)" by (rule DayFromYear_mono)
    also have "\<dots> \<le> 366 * (d div 366)" using DayFromYear_upper[OF k] by simp
    also have "\<dots> \<le> d"
    proof -
      have "0 \<le> d mod 366" by simp
      then show ?thesis using mult_div_mod_eq[of 366 d] by linarith
    qed
    finally show ?thesis .
  next
    case False
    then have k: "d div 365 \<le> 0" by (simp add: div_nonpos_pos_le0)
    have "lo \<le> 1970 + d div 365" by (simp add: lo_def)
    then have "DayFromYear lo \<le> DayFromYear (1970 + d div 365)" by (rule DayFromYear_mono)
    also have "\<dots> \<le> 365 * (d div 365)" using DayFromYear_lower[OF k] by simp
    also have "\<dots> \<le> d"
    proof -
      have "0 \<le> d mod 365" by simp
      then show ?thesis using mult_div_mod_eq[of 365 d] by linarith
    qed
    finally show ?thesis .
  qed
  have hi_ok: "d < DayFromYear hi"
  proof (cases "0 \<le> d")
    case True
    then have k: "0 \<le> d div 365 + 1" by (simp add: pos_imp_zdiv_nonneg_iff add_nonneg_nonneg)
    have "d mod 365 < 365" by simp
    then have "d < 365 * (d div 365 + 1)"
      using mult_div_mod_eq[of 365 d] by (rule below_next_multiple)
    also have "\<dots> \<le> DayFromYear (1970 + (d div 365 + 1))" using DayFromYear_upper[OF k] by simp
    also have "\<dots> \<le> DayFromYear hi" by (rule DayFromYear_mono) (simp add: hi_def)
    finally show ?thesis .
  next
    case False
    then have "d div 366 < 0" by (simp add: neg_imp_zdiv_neg_iff)
    then have k: "d div 366 + 1 \<le> 0" by simp
    have "d mod 366 < 366" by simp
    then have "d < 366 * (d div 366 + 1)"
      using mult_div_mod_eq[of 366 d] by (rule below_next_multiple)
    also have "\<dots> \<le> DayFromYear (1970 + (d div 366 + 1))" using DayFromYear_lower[OF k] by simp
    also have "\<dots> \<le> DayFromYear hi" by (rule DayFromYear_mono) (simp add: hi_def)
    finally show ?thesis .
  qed
  have le: "lo \<le> hi" by (simp add: lo_def hi_def)
  define r where "r = fold (\<lambda>y best. if DayFromYear y \<le> d then y else best) [lo..hi] lo"
  have r: "lo \<le> r \<and> r \<le> hi \<and> DayFromYear r \<le> d \<and> (\<forall>y. r < y \<and> y \<le> hi \<longrightarrow> \<not> DayFromYear y \<le> d)"
    using fold_last_true[of lo hi "\<lambda>y. DayFromYear y \<le> d", OF le lo_ok]
    by (simp add: Let_def r_def)
  have yr: "YearFromTime t = r"
    by (simp add: YearFromTime_def Let_def r_def lo_def hi_def d_def)
  have "r \<noteq> hi" using r hi_ok by auto
  with r have "r < r + 1 \<and> r + 1 \<le> hi" by simp
  with r have "\<not> DayFromYear (r + 1) \<le> d" by blast
  with r show ?thesis by (simp add: yr d_def)
qed


lemma DayWithinYear_range:
  "0 \<le> DayWithinYear t \<and> DayWithinYear t < 365 + InLeapYear (YearFromTime t)"
  using YearFromTime_spec[of t] DayFromYear_step[of "YearFromTime t"]
  by (simp add: DayWithinYear_def)

lemma DateFromTime_range: "1 \<le> DateFromTime t \<and> DateFromTime t \<le> 31"
proof -
  define d where "d = DayWithinYear t"
  define leap where "leap = InLeapYear (YearFromTime t)"
  have d: "0 \<le> d" "d < 365 + leap"
    using DayWithinYear_range[of t] by (simp_all add: d_def leap_def)
  have l: "leap = 0 \<or> leap = 1"
    using InLeapYear_range[of "YearFromTime t"] unfolding leap_def by auto
  have "DateFromTime t =
        d - monthStart
              (if d < 31 then 0 else if d < 59 + leap then 1 else if d < 90 + leap then 2
               else if d < 120 + leap then 3 else if d < 151 + leap then 4
               else if d < 181 + leap then 5 else if d < 212 + leap then 6
               else if d < 243 + leap then 7 else if d < 273 + leap then 8
               else if d < 304 + leap then 9 else if d < 334 + leap then 10 else 11) leap + 1"
    by (simp add: DateFromTime_def MonthFromTime_def Let_def d_def leap_def)
  then show ?thesis using d l by (auto simp: monthStart_def)
qed

subsection \<open>The sort of identifyGrowthLanguages\<close>

lemma mset_insert_by: "mset (insert_by cmp x ys) = add_mset x (mset ys)"
  by (induction ys) auto

lemma mset_array_sort: "mset (array_sort cmp xs) = mset xs"
  by (induction xs) (auto simp: array_sort_def mset_insert_by)

lemma set_insert_by: "set (insert_by cmp x ys) = insert x (set ys)"
  by (induction ys) auto

lemma sorted_insert_by_desc:
  "sorted_wrt (\<lambda>a b. commitCount a \<ge> commitCount b) ys \<Longrightarrow>
   sorted_wrt (\<lambda>a b. commitCount a \<ge> commitCount b) (insert_by byCommitCountDesc x ys)"
  by (induction ys) (auto simp: byCommitCountDesc_def set_insert_by)

lemma sorted_array_sort_desc:
  "sorted_wrt (\<lambda>a b. commitCount a \<ge> commitCount b) (array_sort byCommitCountDesc xs)"
proof (induction xs)
  case Nil
  show ?case by (simp add: array_sort_def)
next
  case (Cons x xs)
  then show ?case using sorted_insert_by_desc[of "array_sort byCommitCountDesc xs" x]
    by (simp add: array_sort_def)
qed

lemma filter_insert_by_desc:
  "sorted_wrt (\<lambda>a b. commitCount a \<ge> commitCount b) ys \<Longrightarrow>
   filter (\<lambda>l. commitCount l = k) (insert_by byCommitCountDesc x ys) =
     (if commitCount x = k then x # filter (\<lambda>l. commitCount l = k) ys
      else filter (\<lambda>l. commitCount l = k) ys)"
proof (induction ys)
  case Nil
  show ?case by simp
next
  case (Cons y ys)
  show ?case
  proof (cases "byCommitCountDesc x y \<le> 0")
    case True
    then show ?thesis by simp
  next
    case False
    then have lt: "commitCount x < commitCount y" by (simp add: byCommitCountDesc_def)
    have ih: "filter (\<lambda>l. commitCount l = k) (insert_by byCommitCountDesc x ys) =
     (if commitCount x = k then x # filter (\<lambda>l. commitCount l = k) ys
      else filter (\<lambda>l. commitCount l = k) ys)"
      using Cons by simp
    have "\<forall>z\<in>set ys. commitCount z \<le> commitCount y" using Cons.prems by simp
    show ?thesis
    proof (cases "commitCount y = k")
      case True
      with lt have "commitCount x \<noteq> k" by simp
      with False ih show ?thesis by simp
    next
      case F2: False
      with False ih show ?thesis by simp
    qed
  qed
qed

lemma filter_array_sort_desc:
  "filter (\<lambda>l. commitCount l = k) (array_sort byCommitCountDesc xs) =
   filter (\<lambda>l. commitCount l = k) xs"
proof (induction xs)
  case Nil
  show ?case by (simp add: array_sort_def)
next
  case (Cons x xs)
  have "array_sort byCommitCountDesc (x # xs) =
        insert_by byCommitCountDesc x (array_sort byCommitCountDesc xs)"
    by (simp add: array_sort_def)
  then show ?case
    using Cons filter_insert_by_desc[OF sorted_array_sort_desc, of k x xs] by simp
qed

lemma slice0_all: "int (length xs) \<le> e \<Longrightarrow> slice0 e xs = xs"
  by (simp add: slice0_def Let_def)

lemma length_array_sort: "length (array_sort cmp xs) = length xs"
  using mset_array_sort[of cmp xs] by (metis size_mset)


lemma growth_sorted_all:
  assumes "int (length languages) \<le> topN"
  shows "snd (identifyGrowthLanguages languages topN) =
    map (\<lambda>lang. \<lparr>g_language = language lang, g_commitCount = commitCount lang,
                   growth = growthTier (commitCount lang)\<rparr>)
      (array_sort byCommitCountDesc languages)"
  using assms by (simp add: identifyGrowthLanguages_def Let_def slice0_all length_array_sort)

text \<open>
  Claim C7. When \<open>topN\<close> is at least the number of rows, \<open>identifyGrowthLanguages\<close> returns
  all of them (as language and commit count), in descending order of \<open>commitCount\<close>, rows
  of equal \<open>commitCount\<close> in their original relative order, each with the tier \<open>High\<close> above
  100 commits, \<open>Medium\<close> above 50, \<open>Low\<close> otherwise. For TypeScript 150, Python 75,
  JavaScript 30 and \<open>topN = 2\<close> it returns TypeScript 150 High, then Python 75 Medium.
\<close>

theorem C7_identifyGrowthLanguages_ranking:
  "(int (length languages) \<le> topN \<longrightarrow>
      (let r = snd (identifyGrowthLanguages languages topN) in
         mset (map (\<lambda>g. (g_language g, g_commitCount g)) r) =
           mset (map (\<lambda>l. (language l, commitCount l)) languages)
       \<and> sorted_wrt (\<lambda>a b. g_commitCount a \<ge> g_commitCount b) r
       \<and> (\<forall>k. filter (\<lambda>p. snd p = k) (map (\<lambda>g. (g_language g, g_commitCount g)) r) =
                filter (\<lambda>p. snd p = k) (map (\<lambda>l. (language l, commitCount l)) languages))
       \<and> (\<forall>g \<in> set r. growth g =
             (if g_commitCount g > 100 then ''High''
              else if g_commitCount g > 50 then ''Medium'' else ''Low''))))
   \<and> (\<forall>ts py js.
         language ts = ''TypeScript'' \<and> commitCount ts = 150 \<and>
         language py = ''Python'' \<and> commitCount py = 75 \<and>
         language js = ''JavaScript'' \<and> commitCount js = 30 \<longrightarrow>
         snd (identifyGrowthLanguages [ts, py, js] 2) =
           [\<lparr>g_language = ''TypeScript'', g_commitCount = 150, growth = ''High''\<rparr>,
            \<lparr>g_language = ''Python'', g_commitCount = 75, growth = ''Medium''\<rparr>])"
proof (intro conjI impI allI)
  assume n: "int (length languages) \<le> topN"
  let ?s = "array_sort byCommitCountDesc languages"
  let ?ann = "\<lambda>lang. \<lparr>g_language = language lang, g_commitCount = commitCount lang,
                   growth = growthTier (commitCount lang)\<rparr>"
  have r: "snd (identifyGrowthLanguages languages topN) = map ?ann ?s"
    by (rule growth_sorted_all[OF n])
  have pairs: "map (\<lambda>g. (g_language g, g_commitCount g)) (map ?ann ?s) =
               map (\<lambda>l. (language l, commitCount l)) ?s"
    by simp
  have perm: "mset (map (\<lambda>l. (language l, commitCount l)) ?s) =
              mset (map (\<lambda>l. (language l, commitCount l)) languages)"
    using mset_array_sort[of byCommitCountDesc languages] by (metis mset_map)
  have srt: "sorted_wrt (\<lambda>a b. g_commitCount a \<ge> g_commitCount b) (map ?ann ?s)"
    using sorted_array_sort_desc[of languages] by (simp add: sorted_wrt_map)
  have stab: "\<And>k. filter (\<lambda>p. snd p = k) (map (\<lambda>l. (language l, commitCount l)) ?s) =
                filter (\<lambda>p. snd p = k) (map (\<lambda>l. (language l, commitCount l)) languages)"
    using filter_array_sort_desc[of _ languages] by (simp add: filter_map comp_def)
  have tier: "\<forall>g \<in> set (map ?ann ?s). growth g =
             (if g_commitCount g > 100 then ''High''
              else if g_commitCount g > 50 then ''Medium'' else ''Low'')"
    by (auto simp: growthTier_def)
  show "let r = snd (identifyGrowthLanguages languages topN) in
         mset (map (\<lambda>g. (g_language g, g_commitCount g)) r) =
           mset (map (\<lambda>l. (language l, commitCount l)) languages)
       \<and> sorted_wrt (\<lambda>a b. g_commitCount a \<ge> g_commitCount b) r
       \<and> (\<forall>k. filter (\<lambda>p. snd p = k) (map (\<lambda>g. (g_language g, g_commitCount g)) r) =
                filter (\<lambda>p. snd p = k) (map (\<lambda>l. (language l, commitCount l)) languages))
       \<and> (\<forall>g \<in> set r. growth g =
             (if g_commitCount g > 100 then ''High''
              else if g_commitCount g > 50 then ''Medium'' else ''Low''))"
    unfolding Let_def r using perm srt stab tier by (simp only: pairs) simp
next
  fix ts py js :: LanguageProficiency
  assume a: "language ts = ''TypeScript'' \<and> commitCount ts = 150 \<and>
         language py = ''Python'' \<and> commitCount py = 75 \<and>
         language js = ''JavaScript'' \<and> commitCount js = 30"
  then show "snd (identifyGrowthLanguages [ts, py, js] 2) =
           [\<lparr>g_language = ''TypeScript'', g_commitCount = 150, growth = ''High''\<rparr>,
            \<lparr>g_language = ''Python'', g_commitCount = 75, growth = ''Medium''\<rparr>]"
    by (simp add: identifyGrowthLanguages_def Let_def array_sort_def byCommitCountDesc_def
        slice0_def growthTier_def)
qed

theorem C7_identifyGrowthLanguages_ranking_witness:
  "int (length [mkLanguage ''Go'' 60 0, mkLanguage ''Rust'' 120 0, mkLanguage ''C'' 60 0]) \<le> 3
   \<and> sorted_wrt (\<lambda>a b. g_commitCount a \<ge> g_commitCount b)
        (snd (identifyGrowthLanguages
                [mkLanguage ''Go'' 60 0, mkLanguage ''Rust'' 120 0, mkLanguage ''C'' 60 0] 3))
   \<and> snd (identifyGrowthLanguages
            [mkLanguage ''TypeScript'' 150 0, mkLanguage ''Python'' 75 0,
             mkLanguage ''JavaScript'' 30 0] 2) =
           [\<lparr>g_language = ''TypeScript'', g_commitCount = 150, growth = ''High''\<rparr>,
            \<lparr>g_language = ''Python'', g_commitCount = 75, growth = ''Medium''\<rparr>]"
proof -
  let ?xs = "[mkLanguage ''Go'' 60 0, mkLanguage ''Rust'' 120 0, mkLanguage ''C'' 60 0]"
  have len: "int (length ?xs) \<le> 3" by simp
  have a: "language (mkLanguage ''TypeScript'' 150 0) = ''TypeScript'' \<and>
           commitCount (mkLanguage ''TypeScript'' 150 0) = 150 \<and>
           language (mkLanguage ''Python'' 75 0) = ''Python'' \<and>
           commitCount (mkLanguage ''Python'' 75 0) = 75 \<and>
           language (mkLanguage ''JavaScript'' 30 0) = ''JavaScript'' \<and>
           commitCount (mkLanguage ''JavaScript'' 30 0) = 30"
    by (simp add: mkLanguage_def)
  from C7_identifyGrowthLanguages_ranking[of ?xs 3] len a show ?thesis
    unfolding Let_def by blast
qed

text \<open>
  Claim C1 asks that the caller's array is left as it was. \<open>languages.sort\<close> sorts the
  array it is called on: after the call on Python 75, TypeScript 150 the caller's array
  holds TypeScript 150, Python 75.
\<close>

theorem C1_identifyGrowthLanguages_reorders_argument:
  "fst (identifyGrowthLanguages [mkLanguage ''Python'' 75 0, mkLanguage ''TypeScript'' 150 0] 2)
     = [mkLanguage ''TypeScript'' 150 0, mkLanguage ''Python'' 75 0]
   \<and> fst (identifyGrowthLanguages [mkLanguage ''Python'' 75 0, mkLanguage ''TypeScript'' 150 0] 2)
     \<noteq> [mkLanguage ''Python'' 75 0, mkLanguage ''TypeScript'' 150 0]"
  by (simp add: identifyGrowthLanguages_def Let_def array_sort_def byCommitCountDesc_def mkLanguage_def)


subsection \<open>Binary64 rounding\<close>

text \<open>
  \<open>rne\<close> is within a half of its argument and monotone; \<open>fl\<close> keeps zero, the sign and
  the order of non-negative numbers, stays within a factor of two, and leaves the integers
  below \<open>2 ^ 53\<close> as they are.
\<close>

lemma rne_near: "\<bar>y - of_int n\<bar> < 1 / 2 \<Longrightarrow> rne y = n"
proof -
  assume a: "\<bar>y - of_int n\<bar> < 1 / 2"
  show ?thesis
  proof (cases "of_int n \<le> y")
    case True
    with a have "\<lfloor>y\<rfloor> = n" by (intro floor_unique) linarith+
    with a True show ?thesis by (simp add: rne_def)
  next
    case False
    have "real_of_int (n - 1) \<le> y" "y < real_of_int (n - 1) + 1"
      using a False by (simp_all add: abs_if split: if_splits)
    then have "\<lfloor>y\<rfloor> = n - 1" by (rule floor_unique)
    with a False show ?thesis by (simp add: rne_def abs_if split: if_splits)
  qed
qed

lemma rne_of_int [simp]: "rne (of_int n) = n"
  by (rule rne_near) simp

lemma rne_error: "\<bar>of_int (rne y) - y\<bar> \<le> 1 / 2"
proof -
  define n where "n = \<lfloor>y\<rfloor>"
  have "real_of_int n \<le> y" "y < real_of_int n + 1" unfolding n_def by linarith+
  then show ?thesis unfolding rne_def Let_def n_def[symmetric]
    by (auto simp: abs_if)
qed

lemma rne_mono: "y1 \<le> y2 \<Longrightarrow> rne y1 \<le> rne y2"
proof (rule ccontr)
  assume le: "y1 \<le> y2" and "\<not> rne y1 \<le> rne y2"
  then have gt: "rne y2 + 1 \<le> rne y1" by simp
  then have gtr: "real_of_int (rne y2) + 1 \<le> real_of_int (rne y1)"
    by (metis of_int_1 of_int_add of_int_le_iff)
  from rne_error[of y1] rne_error[of y2] le gtr
  have "y1 = y2" by (auto simp: abs_if split: if_splits) 
  with gt show False by simp
qed

lemma rne_ge: "of_int m \<le> y \<Longrightarrow> m \<le> rne y"
  using rne_mono[of "of_int m" y] by simp

lemma rne_le: "y \<le> of_int m \<Longrightarrow> rne y \<le> m"
  using rne_mono[of y "of_int m"] by simp


lemma two_powr_split: "(2::real) powr of_int (a + b) = 2 powr of_int a * 2 powr of_int b"
  by (simp add: powr_add)

lemma two_powr_52: "(2::real) powr of_int 52 = 2 ^ 52"
  by simp

lemma two_powr_53: "(2::real) powr of_int 53 = 2 ^ 53"
  by simp

lemma two_powr_1: "(2::real) powr of_int 1 = 2"
  by simp

lemma ulp_pos: "0 < ulp x"
  by (simp add: ulp_def)

lemma ulp_eq:
  assumes "2 powr of_int k \<le> \<bar>x\<bar>" and "\<bar>x\<bar> < 2 powr of_int (k + 1)"
  shows "ulp x = 2 powr of_int (k - 52)"
proof -
  have "(0::real) < 2 powr of_int k" by simp
  with assms(1) have "0 < \<bar>x\<bar>" by linarith
  then have "\<lfloor>log 2 \<bar>x\<bar>\<rfloor> = k"
    using assms by (simp add: floor_log_eq_powr_iff)
  then show ?thesis by (simp add: ulp_def)
qed

lemma binade:
  assumes "x \<noteq> 0"
  shows "2 ^ 52 * ulp x \<le> \<bar>x\<bar> \<and> \<bar>x\<bar> < 2 ^ 53 * ulp x"
proof -
  define k where "k = \<lfloor>log 2 \<bar>x\<bar>\<rfloor>"
  have pos: "0 < \<bar>x\<bar>" using assms by simp
  have b: "2 powr of_int k \<le> \<bar>x\<bar> \<and> \<bar>x\<bar> < 2 powr (of_int k + 1)"
    using floor_log_eq_powr_iff[OF pos, of 2 k] by (simp add: k_def)
  have u: "ulp x = 2 powr of_int (k - 52)" by (simp add: ulp_def k_def)
  have "(2::real) powr of_int k = 2 ^ 52 * 2 powr of_int (k - 52)"
    using two_powr_split[of 52 "k - 52"] by (simp only: two_powr_52) simp
  moreover have "(2::real) powr (of_int k + 1) = 2 ^ 53 * 2 powr of_int (k - 52)"
    using two_powr_split[of 53 "k - 52"] by (simp only: two_powr_53) (simp add: add.commute)
  ultimately show ?thesis using b by (simp only: u)
qed

lemma fl_0 [simp]: "fl 0 = 0"
  by (simp add: fl_def)

text \<open>The value of \<open>fl\<close> at a point whose magnitude is known.\<close>

lemma fl_eval:
  assumes "u = 2 powr of_int k" and "2 ^ 52 * u \<le> \<bar>x\<bar>" and "\<bar>x\<bar> < 2 ^ 53 * u"
    and "\<bar>x / u - of_int n\<bar> < 1 / 2"
  shows "fl x = of_int n * u"
proof -
  have upos: "0 < u" using assms(1) by simp
  have "(2::real) powr of_int (k + 52) = 2 ^ 52 * 2 powr of_int k"
    using two_powr_split[of 52 k] by (simp only: two_powr_52) (simp add: add.commute)
  moreover have "(2::real) powr of_int (k + 52 + 1) = 2 ^ 53 * 2 powr of_int k"
    using two_powr_split[of 53 k] by (simp only: two_powr_53) (simp add: add.commute)
  ultimately have "ulp x = 2 powr of_int (k + 52 - 52)"
    using assms(1,2,3) by (intro ulp_eq) simp_all
  then have u: "ulp x = u" using assms(1) by simp
  have "0 < 2 ^ 52 * u" using upos by simp
  with assms(2) have "x \<noteq> 0" by auto
  then show ?thesis using rne_near[OF assms(4)] by (simp add: fl_def u)
qed

lemma fl_range:
  assumes "0 < x"
  shows "2 ^ 52 * ulp x \<le> fl x \<and> fl x \<le> 2 ^ 53 * ulp x"
proof -
  have b: "2 ^ 52 * ulp x \<le> x" "x < 2 ^ 53 * ulp x"
    using binade[of x] assms by simp_all
  have "of_int (2 ^ 52) \<le> x / ulp x"
    using b(1) ulp_pos[of x] by (simp add: pos_le_divide_eq)
  then have lo: "2 ^ 52 \<le> rne (x / ulp x)" by (rule rne_ge)
  have "x / ulp x \<le> of_int (2 ^ 53)"
    using b(2) ulp_pos[of x] by (simp add: pos_divide_le_eq)
  then have hi: "rne (x / ulp x) \<le> 2 ^ 53" by (rule rne_le)
  have "2 ^ 52 * ulp x \<le> of_int (rne (x / ulp x)) * ulp x"
    using lo ulp_pos[of x] by (intro mult_right_mono) (simp_all add: of_int_le_iff[of "2^52", simplified])
  moreover have "of_int (rne (x / ulp x)) * ulp x \<le> 2 ^ 53 * ulp x"
    using hi ulp_pos[of x] by (intro mult_right_mono) (simp_all add: of_int_le_iff[of _ "2^53", simplified])
  ultimately show ?thesis using assms by (simp add: fl_def)
qed

lemma fl_pos: "0 < x \<Longrightarrow> 0 < fl x"
proof -
  assume a: "0 < x"
  have "0 < 2 ^ 52 * ulp x" using ulp_pos[of x] by simp
  with fl_range[OF a] show ?thesis by linarith
qed

lemma fl_nonneg: "0 \<le> x \<Longrightarrow> 0 \<le> fl x"
  using fl_pos[of x] by (cases "x = 0") (simp_all add: less_eq_real_def)

lemma fl_eq_0_iff: "0 \<le> x \<Longrightarrow> fl x = 0 \<longleftrightarrow> x = 0"
  using fl_pos[of x] by (cases "x = 0") auto

lemma fl_bounds:
  assumes "0 < x"
  shows "x / 2 < fl x" and "fl x \<le> 2 * x"
proof -
  have b: "2 ^ 52 * ulp x \<le> x" "x < 2 ^ 53 * ulp x"
    using binade[of x] assms by simp_all
  from fl_range[OF assms] b show "x / 2 < fl x" by simp
  from fl_range[OF assms] b show "fl x \<le> 2 * x" by simp
qed

lemma ulp_mono:
  assumes "0 < x" and "x \<le> y"
  shows "ulp x \<le> ulp y"
proof -
  have "log 2 x \<le> log 2 y" using assms by simp
  then have "\<lfloor>log 2 \<bar>x\<bar>\<rfloor> \<le> \<lfloor>log 2 \<bar>y\<bar>\<rfloor>" using assms by (simp add: floor_mono)
  then show ?thesis by (simp add: ulp_def)
qed

lemma ulp_double:
  assumes "0 < x" and "x \<le> y" and "ulp x \<noteq> ulp y"
  shows "2 * ulp x \<le> ulp y"
proof -
  define a where "a = \<lfloor>log 2 \<bar>x\<bar>\<rfloor>"
  define b where "b = \<lfloor>log 2 \<bar>y\<bar>\<rfloor>"
  have "log 2 x \<le> log 2 y" using assms by simp
  then have "a \<le> b" using assms by (simp add: floor_mono a_def b_def)
  moreover have "a \<noteq> b" using assms(3) by (auto simp: ulp_def a_def b_def)
  ultimately have "a + 1 \<le> b" by simp
  then have "(2::real) powr of_int (a + 1 - 52) \<le> 2 powr of_int (b - 52)" by simp
  moreover have "(2::real) powr of_int (a + 1 - 52) = 2 * 2 powr of_int (a - 52)"
    using two_powr_split[of 1 "a - 52"] by (simp only: two_powr_1) (simp add: algebra_simps)
  ultimately show ?thesis
    unfolding ulp_def a_def[symmetric] b_def[symmetric] by linarith
qed

lemma fl_mono:
  assumes "0 \<le> x" and "x \<le> y"
  shows "fl x \<le> fl y"
proof (cases "x = 0")
  case True
  then show ?thesis using fl_nonneg[of y] assms by simp
next
  case False
  then have x: "0 < x" and y: "0 < y" using assms by simp_all
  show ?thesis
  proof (cases "ulp x = ulp y")
    case True
    have "x / ulp y \<le> y / ulp y" using assms(2) ulp_pos[of y] by (simp add: divide_right_mono)
    then have "rne (x / ulp y) \<le> rne (y / ulp y)" by (rule rne_mono)
    then have "of_int (rne (x / ulp y)) * ulp y \<le> of_int (rne (y / ulp y)) * ulp y"
      using ulp_pos[of y] by (intro mult_right_mono) simp_all
    then show ?thesis using x y True by (simp add: fl_def)
  next
    case False
    have "fl x \<le> 2 ^ 53 * ulp x" using fl_range[OF x] by simp
    also have "\<dots> = 2 ^ 52 * (2 * ulp x)" by simp
    also have "\<dots> \<le> 2 ^ 52 * ulp y"
      using ulp_double[OF x assms(2) False] by (intro mult_left_mono) simp_all
    also have "\<dots> \<le> fl y" using fl_range[OF y] by simp
    finally show ?thesis .
  qed
qed

text \<open>Integers below \<open>2 ^ 53\<close> are binary64 numbers.\<close>

lemma fl_of_int:
  assumes "0 \<le> i" and "i < 2 ^ 53"
  shows "fl (of_int i) = of_int i"
proof (cases "i = 0")
  case True
  then show ?thesis by simp
next
  case False
  then have pos: "0 < real_of_int i" using assms by simp
  define k where "k = \<lfloor>log 2 \<bar>real_of_int i\<bar>\<rfloor>"
  have b: "2 powr of_int k \<le> real_of_int i"
    using floor_log_eq_powr_iff[of "\<bar>real_of_int i\<bar>" 2 k] pos by (simp add: k_def)
  have "real_of_int i < 2 ^ 53" using assms(2)
    by (metis of_int_less_iff of_int_numeral of_int_power)
  with b have "(2::real) powr of_int k < 2 powr of_int 53" by (simp only: two_powr_53)
  then have "real_of_int k < real_of_int 53"
    by (rule powr_less_cancel) simp
  then have k52: "k \<le> 52" by simp
  have u: "ulp (of_int i) = 1 / 2 ^ nat (52 - k)"
  proof -
    have "(2::real) powr real_of_int (k - 52) =
          (if k - 52 \<ge> 0 then 2 ^ nat (k - 52) else inverse (2 ^ nat (- (k - 52))))"
      by (rule powr_real_of_int) simp
    also have "\<dots> = 1 / 2 ^ nat (52 - k)"
      using k52 by (cases "k = 52") (simp_all add: inverse_eq_divide)
    finally show ?thesis unfolding ulp_def k_def[symmetric] .
  qed
  have "real_of_int i / ulp (of_int i) = of_int (i * 2 ^ nat (52 - k))"
    by (simp add: u)
  then have "rne (real_of_int i / ulp (of_int i)) = i * 2 ^ nat (52 - k)"
    by (simp only: rne_of_int)
  then show ?thesis using False by (simp add: fl_def u)
qed



lemma fl_eval_neg:
  assumes "2 ^ 52 / 2 ^ j \<le> \<bar>x\<bar>" and "\<bar>x\<bar> < 2 ^ 53 / 2 ^ j"
    and "\<bar>x * 2 ^ j - of_int n\<bar> < 1 / 2"
  shows "fl x = of_int n / 2 ^ j"
proof -
  have u: "1 / 2 ^ j = (2::real) powr of_int (- int j)"
    using powr_real_of_int[of 2 "- int j"] by (simp add: inverse_eq_divide)
  show ?thesis
    using fl_eval[OF u, of x n] assms by simp
qed

lemma fl_eval_pos:
  assumes "2 ^ 52 * 2 ^ j \<le> \<bar>x\<bar>" and "\<bar>x\<bar> < 2 ^ 53 * 2 ^ j"
    and "\<bar>x / 2 ^ j - of_int n\<bar> < 1 / 2"
  shows "fl x = of_int n * 2 ^ j"
proof -
  have u: "2 ^ j = (2::real) powr of_int (int j)"
    using powr_real_of_int[of 2 "int j"] by simp
  show ?thesis
    using fl_eval[OF u, of x n] assms by simp
qed

lemma fl_sqrt_eval_neg:
  assumes "(2 ^ 52 / 2 ^ j) ^ 2 \<le> v" and "v < (2 ^ 53 / 2 ^ j) ^ 2"
    and "((of_int n - 1 / 2) / 2 ^ j) ^ 2 < v" and "v < ((of_int n + 1 / 2) / 2 ^ j) ^ 2"
    and "1 \<le> n"
  shows "fl (sqrt v) = of_int n / 2 ^ j"
proof -
  have v0: "0 \<le> v" using assms(1) by (smt (verit) zero_le_power2)
  have s0: "0 \<le> sqrt v" using v0 by simp
  have a: "2 ^ 52 / 2 ^ j \<le> sqrt v"
    using assms(1) by (intro real_le_rsqrt) simp
  have b: "sqrt v < 2 ^ 53 / 2 ^ j"
    using assms(2) by (intro real_less_lsqrt) simp_all
  have n: "0 \<le> (of_int n - 1 / 2) / (2::real) ^ j" using assms(5) by simp
  have c: "(of_int n - 1 / 2) / 2 ^ j < sqrt v"
    using assms(3) n by (intro real_less_rsqrt) simp
  have d: "sqrt v < (of_int n + 1 / 2) / 2 ^ j"
    using assms(4,5) by (intro real_less_lsqrt) simp_all
  have "\<bar>sqrt v * 2 ^ j - of_int n\<bar> < 1 / 2"
    using c d by (simp add: field_simps abs_if)
  then show ?thesis
    using a b s0 by (intro fl_eval_neg) simp_all
qed

lemma rne_tie: "rne (of_int m + 1 / 2) = (if even m then m else m + 1)"
proof -
  have "\<lfloor>real_of_int m + 1 / 2\<rfloor> = m" by (rule floor_unique) simp_all
  then show ?thesis by (simp add: rne_def)
qed

lemma fl_eval_tie:
  assumes "u = 2 powr of_int k" and "2 ^ 52 * u \<le> \<bar>x\<bar>" and "\<bar>x\<bar> < 2 ^ 53 * u"
    and "x / u = of_int m + 1 / 2"
  shows "fl x = of_int (if even m then m else m + 1) * u"
proof -
  have upos: "0 < u" using assms(1) by simp
  have "(2::real) powr of_int (k + 52) = 2 ^ 52 * 2 powr of_int k"
    using two_powr_split[of 52 k] by (simp only: two_powr_52) (simp add: add.commute)
  moreover have "(2::real) powr of_int (k + 52 + 1) = 2 ^ 53 * 2 powr of_int k"
    using two_powr_split[of 53 k] by (simp only: two_powr_53) (simp add: add.commute)
  ultimately have "ulp x = 2 powr of_int (k + 52 - 52)"
    using assms(1,2,3) by (intro ulp_eq) simp_all
  then have u: "ulp x = u" using assms(1) by simp
  have "0 < 2 ^ 52 * u" using upos by simp
  with assms(2) have "x \<noteq> 0" by auto
  then show ?thesis using rne_tie[of m] by (simp add: fl_def u assms(4))
qed

lemma fl_eval_neg_tie:
  assumes "2 ^ 52 / 2 ^ j \<le> \<bar>x\<bar>" and "\<bar>x\<bar> < 2 ^ 53 / 2 ^ j"
    and "x * 2 ^ j = of_int m + 1 / 2"
  shows "fl x = of_int (if even m then m else m + 1) / 2 ^ j"
proof -
  have u: "1 / 2 ^ j = (2::real) powr of_int (- int j)"
    using powr_real_of_int[of 2 "- int j"] by (simp add: inverse_eq_divide)
  show ?thesis
    using fl_eval_tie[OF u, of x m] assms by simp
qed

lemma fl_1 [simp]: "fl 1 = 1"
  using fl_of_int[of 1] by simp

lemma fl_numeral [simp]: "(numeral k :: int) < 2 ^ 53 \<Longrightarrow> fl (numeral k) = numeral k"
  using fl_of_int[of "numeral k"] by simp

lemma fl_half: "fl (5 / 10) = 1 / 2"
proof -
  have "fl (5 / 10) = real_of_int 4503599627370496 / 2 ^ 53"
    by (rule fl_eval_neg) simp_all
  then show ?thesis by simp
qed

subsection \<open>UTC calendar dates\<close>

text \<open>
  The date of a time value is the date of the start of its UTC day, and the day number
  can be read off the date: two time values have the same date exactly when they lie in
  the same UTC day.
\<close>

lemma isoDate_Day: "isoDate t = isoDate (Day t * msPerDay)"
proof -
  have "Day (Day t * msPerDay) = Day t" by (simp add: Day_def msPerDay_def)
  then show ?thesis
    by (simp add: isoDate_def DateFromTime_def MonthFromTime_def DayWithinYear_def
        YearFromTime_def)
qed

lemma Day_of_isoDate:
  "Day t = DayFromYear (fst (isoDate t))
             + monthStart (fst (snd (isoDate t)) - 1) (InLeapYear (fst (isoDate t)))
             + snd (snd (isoDate t)) - 1"
  by (simp add: isoDate_def DateFromTime_def DayWithinYear_def)

lemma isoDate_epoch: "isoDate 0 = (1970, 1, 1)"
  by (simp add: isoDate_def YearFromTime_def MonthFromTime_def DateFromTime_def
      DayWithinYear_def DayFromYear_def InLeapYear_def monthStart_def Day_def Let_def
      upto.simps)

lemma isoDate_eq_iff: "isoDate a = isoDate b \<longleftrightarrow> Day a = Day b"
proof
  assume "isoDate a = isoDate b"
  then show "Day a = Day b" using Day_of_isoDate[of a] Day_of_isoDate[of b] by simp
next
  assume "Day a = Day b"
  then show "isoDate a = isoDate b" using isoDate_Day[of a] isoDate_Day[of b] by simp
qed

subsection \<open>The day buckets of calculateConsistencyScore\<close>

text \<open>
  The object \<open>commitsByDay\<close> has one key for each UTC day with a commit, in the order of
  the first commit of each day, and its value is the number of commits of that day: the
  array \<open>dailyCounts\<close> of the source is \<open>dayCounts\<close>.
\<close>

lemma distinct_bump: "distinct (map fst obj) \<Longrightarrow> distinct (map fst (bump obj k))"
  by (simp add: bump_def distinct_update)

lemma keys_bump:
  "map fst (bump obj k) = (if k \<in> set (map fst obj) then map fst obj else map fst obj @ [k])"
  by (simp add: bump_def update_keys)

lemma map_of_bump:
  "map_of (bump obj k) k' =
     (if k' = k then Some ((case map_of obj k of None \<Rightarrow> 0 | Some c \<Rightarrow> c) + 1) else map_of obj k')"
  by (simp add: bump_def update_conv')

lemma foldl_bump_distinct:
  "distinct (map fst obj) \<Longrightarrow> distinct (map fst (foldl (\<lambda>obj c. bump obj (f c)) obj cs))"
  by (induction cs arbitrary: obj) (simp_all add: distinct_bump)

lemma filter_filter_absorb:
  "(\<And>x. P x \<Longrightarrow> Q x) \<Longrightarrow> filter P (filter Q xs) = filter P xs"
  by (induction xs) auto

lemma foldl_bump_keys:
  "map fst (foldl (\<lambda>obj c. bump obj (f c)) obj cs) =
     map fst obj @ filter (\<lambda>k. k \<notin> set (map fst obj)) (firstOccurrences (map f cs))"
proof (induction cs arbitrary: obj)
  case Nil
  show ?case by simp
next
  case (Cons c cs)
  let ?k = "f c"
  let ?fo = "firstOccurrences (map f cs)"
  show ?case
  proof (cases "?k \<in> set (map fst obj)")
    case True
    have "filter (\<lambda>k. k \<notin> set (map fst obj)) (filter (\<lambda>y. y \<noteq> ?k) ?fo) =
          filter (\<lambda>k. k \<notin> set (map fst obj)) ?fo"
      using True by (intro filter_filter_absorb) auto
    with True show ?thesis by (simp add: Cons.IH keys_bump)
  next
    case False
    have "filter (\<lambda>k. k \<notin> set (map fst obj) \<and> k \<noteq> ?k) ?fo =
          filter (\<lambda>k. k \<notin> set (map fst obj)) (filter (\<lambda>y. y \<noteq> ?k) ?fo)"
      by (simp add: conj_commute)
    with False show ?thesis by (simp add: Cons.IH keys_bump)
  qed
qed

lemma foldl_bump_map_of:
  "map_of (foldl (\<lambda>obj c. bump obj (f c)) obj cs) k =
     (if k \<in> f ` set cs
      then Some ((case map_of obj k of None \<Rightarrow> 0 | Some c \<Rightarrow> c) + length (filter (\<lambda>c. f c = k) cs))
      else map_of obj k)"
proof (induction cs arbitrary: obj)
  case Nil
  show ?case by simp
next
  case (Cons c cs)
  show ?case
    by (simp add: Cons.IH map_of_bump) (auto simp: filter_empty_conv intro: rev_image_eqI)
qed

lemma set_firstOccurrences: "set (firstOccurrences xs) = set xs"
  by (induction xs) auto

lemma firstOccurrences_map:
  "inj_on g (set xs) \<Longrightarrow> firstOccurrences (map g xs) = map g (firstOccurrences xs)"
proof (induction xs)
  case Nil
  show ?case by simp
next
  case (Cons x xs)
  then have ih: "firstOccurrences (map g xs) = map g (firstOccurrences xs)" by simp
  have "\<And>y. y \<in> set (firstOccurrences xs) \<Longrightarrow> (g y \<noteq> g x) = (y \<noteq> x)"
    using Cons.prems by (auto simp: set_firstOccurrences inj_on_def)
  then have "filter (\<lambda>z. z \<noteq> g x) (map g (firstOccurrences xs)) =
             map g (filter (\<lambda>y. y \<noteq> x) (firstOccurrences xs))"
    by (simp add: filter_map comp_def cong: filter_cong)
  then show ?case by (simp add: ih)
qed

lemma commitsByDay_distinct: "distinct (map fst (commitsByDay cs))"
  unfolding commitsByDay_def by (rule foldl_bump_distinct) simp

lemma commitsByDay_keys:
  "map fst (commitsByDay cs) = firstOccurrences (map (\<lambda>c. isoDate (committedAt c)) cs)"
  unfolding commitsByDay_def using foldl_bump_keys[of "\<lambda>c. isoDate (committedAt c)" "[]" cs]
  by simp

lemma commitsByDay_entry:
  assumes "(d, n) \<in> set (commitsByDay cs)"
  shows "n = length (filter (\<lambda>c. isoDate (committedAt c) = d) cs)"
proof -
  have "map_of (commitsByDay cs) d = Some n"
    using assms commitsByDay_distinct by simp
  moreover have "d \<in> set (map fst (commitsByDay cs))" using assms by force
  then have "d \<in> (\<lambda>c. isoDate (committedAt c)) ` set cs"
    by (simp add: commitsByDay_keys set_firstOccurrences)
  ultimately show ?thesis
    unfolding commitsByDay_def by (simp add: foldl_bump_map_of)
qed

lemma commitsByDay_values:
  "map snd (commitsByDay cs) =
     map (\<lambda>d. length (filter (\<lambda>c. isoDate (committedAt c) = d) cs)) (map fst (commitsByDay cs))"
  using commitsByDay_entry by (auto simp: map_eq_conv)

lemma utcDayNumber_Day: "utcDayNumber t = Day t"
  by (simp add: utcDayNumber_def Day_def msPerDay_def)

lemma isoDate_utcDayNumber: "isoDate t = isoDate (utcDayNumber t * msPerDay)"
  using isoDate_Day[of t] by (simp add: utcDayNumber_Day)

lemma isoDate_eq_utcDayNumber: "isoDate a = isoDate b \<longleftrightarrow> utcDayNumber a = utcDayNumber b"
  by (simp add: isoDate_eq_iff utcDayNumber_Day)

lemma inj_isoDate_of_day: "inj (\<lambda>d. isoDate (d * msPerDay))"
proof (rule injI)
  fix a b :: int
  assume "isoDate (a * msPerDay) = isoDate (b * msPerDay)"
  then have "Day (a * msPerDay) = Day (b * msPerDay)" by (simp only: isoDate_eq_iff)
  then show "a = b" by (simp add: Day_def msPerDay_def)
qed

lemma dailyCounts_dayCounts: "map snd (commitsByDay cs) = dayCounts cs"
proof -
  let ?g = "\<lambda>d. isoDate (d * msPerDay)"
  let ?day = "\<lambda>c. utcDayNumber (committedAt c)"
  have iso: "(\<lambda>c. isoDate (committedAt c)) = (\<lambda>c. ?g (?day c))"
    using isoDate_utcDayNumber by (simp add: fun_eq_iff)
  have keys: "map fst (commitsByDay cs) = map ?g (firstOccurrences (map ?day cs))"
  proof -
    have "map (\<lambda>c. isoDate (committedAt c)) cs = map ?g (map ?day cs)"
      by (simp add: iso)
    moreover have "inj_on ?g (set (map ?day cs))"
      using inj_isoDate_of_day by (rule inj_on_subset) simp
    ultimately show ?thesis
      by (simp only: commitsByDay_keys firstOccurrences_map)
  qed
  have cnt: "\<And>d. length (filter (\<lambda>c. isoDate (committedAt c) = ?g d) cs) =
                  length (filter (\<lambda>c. ?day c = d) cs)"
  proof -
    fix d
    have "utcDayNumber (d * msPerDay) = d" by (simp add: utcDayNumber_def msPerDay_def)
    then have eq: "\<And>c. (isoDate (committedAt c) = ?g d) = (?day c = d)"
      by (simp only: isoDate_eq_utcDayNumber)
    show "length (filter (\<lambda>c. isoDate (committedAt c) = ?g d) cs) =
                  length (filter (\<lambda>c. ?day c = d) cs)"
      by (simp only: eq)
  qed
  show ?thesis
    unfolding dayCounts_def by (simp only: commitsByDay_values keys) (simp add: cnt comp_def)
qed

subsection \<open>Binary64 values\<close>

text \<open>
  The values of \<open>fl\<close> at the points the examples below pass through, each from the
  bounds of its magnitude and the distance to the nearest integer multiple of its \<open>ulp\<close>.
\<close>

lemma fl_at_1: "fl (8 / 5) = 3602879701896397 / 2251799813685248"
proof -
  have "fl (8 / 5) = real_of_int 7205759403792794 / 2 ^ 52"
    by (rule fl_eval_neg) simp_all
  then show ?thesis by simp
qed

lemma fl_at_2:
  "fl (- (1351079888211149 / 2251799813685248)) =
   - (1351079888211149 / 2251799813685248)"
proof -
  have "fl (- (1351079888211149 / 2251799813685248)) = real_of_int (- 5404319552844596) / 2 ^ 53"
    by (rule fl_eval_neg) simp_all
  then show ?thesis by simp
qed

lemma fl_at_3:
  "fl (1825416864328650878587207900201 / 5070602400912917605986812821504) =
   1621295865853379 / 4503599627370496"
proof -
  have "fl (1825416864328650878587207900201 / 5070602400912917605986812821504) =
          real_of_int 6485183463413516 / 2 ^ 54"
    by (rule fl_eval_neg) simp_all
  then show ?thesis by simp
qed

lemma fl_at_4: "fl (1621295865853379 / 4503599627370496) = 1621295865853379 / 4503599627370496"
proof -
  have "fl (1621295865853379 / 4503599627370496) = real_of_int 6485183463413516 / 2 ^ 54"
    by (rule fl_eval_neg) simp_all
  then show ?thesis by simp
qed

lemma fl_at_5: "fl (1621295865853379 / 2251799813685248) = 1621295865853379 / 2251799813685248"
proof -
  have "fl (1621295865853379 / 2251799813685248) = real_of_int 6485183463413516 / 2 ^ 53"
    by (rule fl_eval_neg) simp_all
  then show ?thesis by simp
qed

lemma fl_at_6: "fl (5404319552844595 / 2251799813685248) = 5404319552844595 / 2251799813685248"
proof -
  have "fl (5404319552844595 / 2251799813685248) = real_of_int 5404319552844595 / 2 ^ 51"
    by (rule fl_eval_neg) simp_all
  then show ?thesis by simp
qed

lemma fl_at_7:
  "fl (29206669829258403248756220714025 / 5070602400912917605986812821504) =
   3242591731706757 / 562949953421312"
proof -
  have "fl (29206669829258403248756220714025 / 5070602400912917605986812821504) =
          real_of_int 6485183463413514 / 2 ^ 50"
    by (rule fl_eval_neg) simp_all
  then show ?thesis by simp
qed

lemma fl_at_8: "fl (14591662792680407 / 2251799813685248) = 1823957849085051 / 281474976710656"
proof -
  have "fl (14591662792680407 / 2251799813685248) =
          real_of_int (if even (7295831396340203::int) then 7295831396340203 else 7295831396340203 + 1) / 2 ^ 50"
    by (rule fl_eval_neg_tie) simp_all
  then show ?thesis by simp
qed

lemma fl_at_9: "fl (30804621451214195 / 4503599627370496) = 7701155362803549 / 1125899906842624"
proof -
  have "fl (30804621451214195 / 4503599627370496) = real_of_int 7701155362803549 / 2 ^ 50"
    by (rule fl_eval_neg) simp_all
  then show ?thesis by simp
qed

lemma fl_at_10: "fl (32425917317067575 / 4503599627370496) = 4053239664633447 / 562949953421312"
proof -
  have "fl (32425917317067575 / 4503599627370496) = real_of_int 8106479329266894 / 2 ^ 50"
    by (rule fl_eval_neg) simp_all
  then show ?thesis by simp
qed

lemma fl_at_11: "fl (4053239664633447 / 2814749767106560) = 6485183463413515 / 4503599627370496"
proof -
  have "fl (4053239664633447 / 2814749767106560) = real_of_int 6485183463413515 / 2 ^ 52"
    by (rule fl_eval_neg) simp_all
  then show ?thesis by simp
qed

lemma fl_at_12:
  "fl (sqrt (6485183463413515 / 4503599627370496)) =
   1351079888211149 / 1125899906842624"
proof -
  have "fl (sqrt (6485183463413515 / 4503599627370496)) = real_of_int 5404319552844596 / 2 ^ 52"
    by (rule fl_sqrt_eval_neg) (simp_all add: power2_eq_square)
  then show ?thesis by simp
qed

lemma fl_at_13: "fl (2702159776422298 / 3602879701896397) = 6755399441055745 / 9007199254740992"
proof -
  have "fl (2702159776422298 / 3602879701896397) = real_of_int 6755399441055745 / 2 ^ 53"
    by (rule fl_eval_neg) simp_all
  then show ?thesis by simp
qed

lemma fl_at_14: "fl (168884986026393625 / 4503599627370496) = 5277655813324801 / 140737488355328"
proof -
  have "fl (168884986026393625 / 4503599627370496) = real_of_int 5277655813324801 / 2 ^ 47"
    by (rule fl_eval_neg) simp_all
  then show ?thesis by simp
qed

lemma fl_at_15: "fl (8796093022207999 / 140737488355328) = 8796093022207999 / 140737488355328"
proof -
  have "fl (8796093022207999 / 140737488355328) = real_of_int 8796093022207999 / 2 ^ 47"
    by (rule fl_eval_neg) simp_all
  then show ?thesis by simp
qed

lemma fl_at_16: "fl (4863887597560137 / 4503599627370496) = 4863887597560137 / 4503599627370496"
proof -
  have "fl (4863887597560137 / 4503599627370496) = real_of_int 4863887597560137 / 2 ^ 52"
    by (rule fl_eval_neg) simp_all
  then show ?thesis by simp
qed

lemma fl_at_17: "fl (1621295865853379 / 1125899906842624) = 1621295865853379 / 1125899906842624"
proof -
  have "fl (1621295865853379 / 1125899906842624) = real_of_int 6485183463413516 / 2 ^ 52"
    by (rule fl_eval_neg) simp_all
  then show ?thesis by simp
qed

lemma fl_at_18: "fl (8106479329266893 / 1125899906842624) = 8106479329266893 / 1125899906842624"
proof -
  have "fl (8106479329266893 / 1125899906842624) = real_of_int 8106479329266893 / 2 ^ 50"
    by (rule fl_eval_neg) simp_all
  then show ?thesis by simp
qed

lemma fl_at_19: "fl (8106479329266893 / 5629499534213120) = 3242591731706757 / 2251799813685248"
proof -
  have "fl (8106479329266893 / 5629499534213120) = real_of_int 6485183463413514 / 2 ^ 52"
    by (rule fl_eval_neg) simp_all
  then show ?thesis by simp
qed

lemma fl_at_20:
  "fl (sqrt (3242591731706757 / 2251799813685248)) =
   5404319552844595 / 4503599627370496"
proof -
  have "fl (sqrt (3242591731706757 / 2251799813685248)) = real_of_int 5404319552844595 / 2 ^ 52"
    by (rule fl_sqrt_eval_neg) (simp_all add: power2_eq_square)
  then show ?thesis by simp
qed

lemma fl_at_21: "fl (5404319552844595 / 7205759403792794) = 6755399441055743 / 9007199254740992"
proof -
  have "fl (5404319552844595 / 7205759403792794) = real_of_int 6755399441055743 / 2 ^ 53"
    by (rule fl_eval_neg) simp_all
  then show ?thesis by simp
qed

lemma fl_at_22: "fl (168884986026393575 / 4503599627370496) = 5277655813324799 / 140737488355328"
proof -
  have "fl (168884986026393575 / 4503599627370496) = real_of_int 5277655813324799 / 2 ^ 47"
    by (rule fl_eval_neg) simp_all
  then show ?thesis by simp
qed

lemma fl_at_23: "fl (8796093022208001 / 140737488355328) = 8796093022208001 / 140737488355328"
proof -
  have "fl (8796093022208001 / 140737488355328) = real_of_int 8796093022208001 / 2 ^ 47"
    by (rule fl_eval_neg) simp_all
  then show ?thesis by simp
qed

lemma fl_at_24: "fl (2 / 5) = 3602879701896397 / 9007199254740992"
proof -
  have "fl (2 / 5) = real_of_int 7205759403792794 / 2 ^ 54"
    by (rule fl_eval_neg) simp_all
  then show ?thesis by simp
qed

lemma fl_at_25: "fl (3 / 5) = 5404319552844595 / 9007199254740992"
proof -
  have "fl (3 / 5) = real_of_int 5404319552844595 / 2 ^ 53"
    by (rule fl_eval_neg) simp_all
  then show ?thesis by simp
qed

lemma fl_at_26: "fl (90071992547409925 / 2251799813685248) = 40"
proof -
  have "fl (90071992547409925 / 2251799813685248) = real_of_int 5629499534213120 / 2 ^ 47"
    by (rule fl_eval_neg) simp_all
  then show ?thesis by simp
qed

lemma fl_at_27: "fl (135107988821114875 / 2251799813685248) = 60"
proof -
  have "fl (135107988821114875 / 2251799813685248) = real_of_int 8444249301319680 / 2 ^ 47"
    by (rule fl_eval_neg) simp_all
  then show ?thesis by simp
qed

lemma fl_at_28: "fl (1 / 5) = 3602879701896397 / 18014398509481984"
proof -
  have "fl (1 / 5) = real_of_int 7205759403792794 / 2 ^ 55"
    by (rule fl_eval_neg) simp_all
  then show ?thesis by simp
qed

lemma fl_at_29: "fl (3 / 200) = 1080863910568919 / 72057594037927936"
proof -
  have "fl (3 / 200) = real_of_int 8646911284551352 / 2 ^ 59"
    by (rule fl_eval_neg) simp_all
  then show ?thesis by simp
qed

lemma fl_at_30: "fl (1 / 100) = 5764607523034235 / 576460752303423488"
proof -
  have "fl (1 / 100) = real_of_int 5764607523034235 / 2 ^ 59"
    by (rule fl_eval_neg) simp_all
  then show ?thesis by simp
qed

lemma fl_at_31: "fl (1 / 50) = 5764607523034235 / 288230376151711744"
proof -
  have "fl (1 / 50) = real_of_int 5764607523034235 / 2 ^ 58"
    by (rule fl_eval_neg) simp_all
  then show ?thesis by simp
qed

lemma fl_at_32: "fl (3 / 4) = 3 / 4"
proof -
  have "fl (3 / 4) = real_of_int 6755399441055744 / 2 ^ 53"
    by (rule fl_eval_neg) simp_all
  then show ?thesis by simp
qed

lemma fl_at_33: "fl (3 / 40) = 5404319552844595 / 72057594037927936"
proof -
  have "fl (3 / 40) = real_of_int 5404319552844595 / 2 ^ 56"
    by (rule fl_eval_neg) simp_all
  then show ?thesis by simp
qed

lemma fl_at_34: "fl (7 / 100) = 1261007895663739 / 18014398509481984"
proof -
  have "fl (7 / 100) = real_of_int 5044031582654956 / 2 ^ 56"
    by (rule fl_eval_neg) simp_all
  then show ?thesis by simp
qed

lemma fl_at_35: "fl (2 / 25) = 5764607523034235 / 72057594037927936"
proof -
  have "fl (2 / 25) = real_of_int 5764607523034235 / 2 ^ 56"
    by (rule fl_eval_neg) simp_all
  then show ?thesis by simp
qed

lemma fl_at_36: "fl (1 / 6) = 6004799503160661 / 36028797018963968"
proof -
  have "fl (1 / 6) = real_of_int 6004799503160661 / 2 ^ 55"
    by (rule fl_eval_neg) simp_all
  then show ?thesis by simp
qed

lemma fl_at_37: "fl (30023997515803305 / 36028797018963968) = 3752999689475413 / 4503599627370496"
proof -
  have "fl (30023997515803305 / 36028797018963968) = real_of_int 7505999378950826 / 2 ^ 53"
    by (rule fl_eval_neg) simp_all
  then show ?thesis by simp
qed

lemma fl_at_38:
  "fl (20282409603651667871907462442735 / 40564819207303340847894502572032) =
   9007199254740991 / 18014398509481984"
proof -
  have "fl (20282409603651667871907462442735 / 40564819207303340847894502572032) =
          real_of_int 9007199254740991 / 2 ^ 54"
    by (rule fl_eval_neg) simp_all
  then show ?thesis by simp
qed

lemma fl_at_39: "fl (9007199254740991 / 18014398509481984) = 9007199254740991 / 18014398509481984"
proof -
  have "fl (9007199254740991 / 18014398509481984) = real_of_int 9007199254740991 / 2 ^ 54"
    by (rule fl_eval_neg) simp_all
  then show ?thesis by simp
qed

lemma fl_at_40: "fl (3 / 2) = 3 / 2"
proof -
  have "fl (3 / 2) = real_of_int 6755399441055744 / 2 ^ 52"
    by (rule fl_eval_neg) simp_all
  then show ?thesis by simp
qed

lemma fl_at_41: "fl (15 / 2) = 15 / 2"
proof -
  have "fl (15 / 2) = real_of_int 8444249301319680 / 2 ^ 50"
    by (rule fl_eval_neg) simp_all
  then show ?thesis by simp
qed

lemma fl_at_42: "fl (81064793292668925 / 18014398509481984) = 9 / 2"
proof -
  have "fl (81064793292668925 / 18014398509481984) = real_of_int 5066549580791808 / 2 ^ 50"
    by (rule fl_eval_neg) simp_all
  then show ?thesis by simp
qed

lemma fl_at_43: "fl (89 / 2) = 89 / 2"
proof -
  have "fl (89 / 2) = real_of_int 6262818231812096 / 2 ^ 47"
    by (rule fl_eval_neg) simp_all
  then show ?thesis by simp
qed

lemma fl_at_44: "fl (3 / 7) = 7720456504063707 / 18014398509481984"
proof -
  have "fl (3 / 7) = real_of_int 7720456504063707 / 2 ^ 54"
    by (rule fl_eval_neg) simp_all
  then show ?thesis by simp
qed

lemma fl_at_45: "fl (43 / 100) = 7746191359077253 / 18014398509481984"
proof -
  have "fl (43 / 100) = real_of_int 7746191359077253 / 2 ^ 54"
    by (rule fl_eval_neg) simp_all
  then show ?thesis by simp
qed

lemma fl_at_46: "fl (1 / 2) = 1 / 2"
proof -
  have "fl (1 / 2) = real_of_int 4503599627370496 / 2 ^ 53"
    by (rule fl_eval_neg) simp_all
  then show ?thesis by simp
qed

lemma fl_at_47: "fl (1 / 4) = 1 / 4"
proof -
  have "fl (1 / 4) = real_of_int 4503599627370496 / 2 ^ 54"
    by (rule fl_eval_neg) simp_all
  then show ?thesis by simp
qed

lemma fl_at_48: "fl (11 / 6) = 8256599316845909 / 4503599627370496"
proof -
  have "fl (11 / 6) = real_of_int 8256599316845909 / 2 ^ 52"
    by (rule fl_eval_neg) simp_all
  then show ?thesis by simp
qed

lemma fl_at_49: "fl (41282996584229545 / 4503599627370496) = 5160374573028693 / 562949953421312"
proof -
  have "fl (41282996584229545 / 4503599627370496) = real_of_int 5160374573028693 / 2 ^ 49"
    by (rule fl_eval_neg) simp_all
  then show ?thesis by simp
qed

lemma fl_at_50:
  "fl (27888313205021043999412704964335 / 5070602400912917605986812821504) =
   6192449487634431 / 1125899906842624"
proof -
  have "fl (27888313205021043999412704964335 / 5070602400912917605986812821504) =
          real_of_int 6192449487634431 / 2 ^ 50"
    by (rule fl_eval_neg) simp_all
  then show ?thesis by simp
qed

lemma fl_at_51: "fl (6192449487634431 / 1125899906842624) = 6192449487634431 / 1125899906842624"
proof -
  have "fl (6192449487634431 / 1125899906842624) = real_of_int 6192449487634431 / 2 ^ 50"
    by (rule fl_eval_neg) simp_all
  then show ?thesis by simp
qed

lemmas fl_at = fl_at_1 fl_at_2 fl_at_3 fl_at_4 fl_at_5 fl_at_6 fl_at_7 fl_at_8 fl_at_9 fl_at_10
  fl_at_11 fl_at_12 fl_at_13 fl_at_14 fl_at_15 fl_at_16 fl_at_17 fl_at_18 fl_at_19 fl_at_20
  fl_at_21 fl_at_22 fl_at_23 fl_at_24 fl_at_25 fl_at_26 fl_at_27 fl_at_28 fl_at_29 fl_at_30
  fl_at_31 fl_at_32 fl_at_33 fl_at_34 fl_at_35 fl_at_36 fl_at_37 fl_at_38 fl_at_39 fl_at_40
  fl_at_41 fl_at_42 fl_at_43 fl_at_44 fl_at_45 fl_at_46 fl_at_47 fl_at_48 fl_at_49 fl_at_50
  fl_at_51

lemma score_A:
  "Math_round (clamp (fsub 100 (fmul (cv_binary64 [1, 1, 4, 1, 1]) 50)) 0 100) = 62"
  by (simp add: cv_binary64_def mean_of_def variance_of_def fadd_def fsub_def fmul_def fdiv_def
      fsqrt_def Math_pow2_def clamp_def Math_round_def fl_at)

lemma score_B:
  "Math_round (clamp (fsub 100 (fmul (cv_binary64 [1, 1, 1, 1, 4]) 50)) 0 100) = 63"
  by (simp add: cv_binary64_def mean_of_def variance_of_def fadd_def fsub_def fmul_def fdiv_def
      fsqrt_def Math_pow2_def clamp_def Math_round_def fl_at)

subsection \<open>calculateConsistencyScore\<close>

lemma length_firstOccurrences_pos: "xs \<noteq> [] \<Longrightarrow> firstOccurrences xs \<noteq> []"
  by (cases xs) simp_all

lemma dayCounts_nonempty: "cs \<noteq> [] \<Longrightarrow> dayCounts cs \<noteq> []"
  by (simp add: dayCounts_def length_firstOccurrences_pos)

lemma dayCounts_Nil: "dayCounts [] = []"
  by (simp add: dayCounts_def)

lemma score_eq_counts:
  assumes "cs \<noteq> []"
  shows "calculateConsistencyScore cs =
         Math_round (clamp (fsub 100 (fmul (cv_binary64 (dayCounts cs)) 50)) 0 100)"
  using assms dayCounts_nonempty[OF assms]
  by (simp add: calculateConsistencyScore_def Let_def dailyCounts_dayCounts cv_binary64_def
      clamp_def)

lemma Math_round_clamp_range:
  "0 \<le> Math_round (clamp x 0 100) \<and> Math_round (clamp x 0 100) \<le> 100
   \<and> Math_round (clamp x 0 100) \<in> \<int>"
proof -
  let ?y = "clamp x 0 100"
  have y: "0 \<le> ?y" "?y \<le> 100" by (simp_all add: clamp_def)
  have "0 \<le> \<lfloor>?y + 1 / 2\<rfloor>" using y(1) by simp
  moreover have "\<lfloor>?y + 1 / 2\<rfloor> \<le> 100"
  proof -
    have "?y + 1 / 2 < 101" using y(2) by simp
    then have "\<lfloor>?y + 1 / 2\<rfloor> < 101" by (simp add: floor_less_iff)
    then show ?thesis by simp
  qed
  ultimately show ?thesis by (simp add: Math_round_def)
qed






text \<open>Eight commits on five days, in two orders.\<close>

lemma dayCounts_A: "dayCounts (commitsOnDays [0, 1, 2, 2, 2, 2, 3, 4]) = [1, 1, 4, 1, 1]"
  by (simp add: dayCounts_def commitsOnDays_def mkCommit_def utcDayNumber_def)

lemma dayCounts_B: "dayCounts (commitsOnDays [0, 1, 3, 4, 2, 2, 2, 2]) = [1, 1, 1, 1, 4]"
  by (simp add: dayCounts_def commitsOnDays_def mkCommit_def utcDayNumber_def)

lemma score_days_A: "calculateConsistencyScore (commitsOnDays [0, 1, 2, 2, 2, 2, 3, 4]) = 62"
proof -
  have ne: "commitsOnDays [0, 1, 2, 2, 2, 2, 3, 4] \<noteq> []" by (simp add: commitsOnDays_def)
  show ?thesis using score_eq_counts[OF ne] by (simp only: dayCounts_A score_A)
qed

lemma score_days_B: "calculateConsistencyScore (commitsOnDays [0, 1, 3, 4, 2, 2, 2, 2]) = 63"
proof -
  have ne: "commitsOnDays [0, 1, 3, 4, 2, 2, 2, 2] \<noteq> []" by (simp add: commitsOnDays_def)
  show ?thesis using score_eq_counts[OF ne] by (simp only: dayCounts_B score_B)
qed




lemma dayCounts_of_days:
  "dayCounts cs =
     map (\<lambda>d. length (filter (\<lambda>x. x = d) (map (\<lambda>c. committedAt c div 86400000) cs)))
       (firstOccurrences (map (\<lambda>c. committedAt c div 86400000) cs))"
  by (simp add: dayCounts_def utcDayNumber_def filter_map comp_def)

text \<open>
  Claim C10, amended. The consistency score depends only on the per-UTC-day commit
  counts, taken in the order in which the days first occur in the list: two commit
  lists with equal sequences of such counts get the same score. In particular two
  lists whose commits fall, position by position, on the same UTC days get the same
  score, whatever their other fields (additions, deletions, filesChanged, repository)
  and the time of day.
\<close>

theorem C10_consistency_depends_on_day_counts_in_order:
  "(dayCounts commits1 = dayCounts commits2 \<longrightarrow>
      calculateConsistencyScore commits1 = calculateConsistencyScore commits2)
   \<and> (map (\<lambda>c. committedAt c div 86400000) commits1 =
       map (\<lambda>c. committedAt c div 86400000) commits2 \<longrightarrow>
      calculateConsistencyScore commits1 = calculateConsistencyScore commits2)"
proof -
  have 1: "calculateConsistencyScore commits1 = calculateConsistencyScore commits2"
    if eq: "dayCounts commits1 = dayCounts commits2"
  proof (cases "commits1 = []")
    case True
    then have "dayCounts commits2 = []" using eq by (simp add: dayCounts_Nil)
    then have "commits2 = []" using dayCounts_nonempty[of commits2] by blast
    with True show ?thesis by simp
  next
    case False
    then have "dayCounts commits2 \<noteq> []" using eq dayCounts_nonempty[of commits1] by simp
    then have ne2: "commits2 \<noteq> []" using dayCounts_Nil by auto
    show ?thesis by (simp only: score_eq_counts[OF False] score_eq_counts[OF ne2] eq)
  qed
  have 2: "dayCounts commits1 = dayCounts commits2"
    if "map (\<lambda>c. committedAt c div 86400000) commits1 =
        map (\<lambda>c. committedAt c div 86400000) commits2"
    using that by (simp only: dayCounts_of_days)
  from 1 2 show ?thesis by blast
qed

theorem C10_consistency_depends_on_day_counts_in_order_witness:
  "dayCounts [mkCommit 0 1 10 5 2, mkCommit 86400000 1 12 3 2, mkCommit 86400001 1 0 0 0] =
   dayCounts [mkCommit 259200000 7 1 1 1, mkCommit 604800000 2 0 9 1, mkCommit 691199999 8 500 400 30]
   \<and> calculateConsistencyScore
        [mkCommit 0 1 10 5 2, mkCommit 86400000 1 12 3 2, mkCommit 86400001 1 0 0 0] =
      calculateConsistencyScore
        [mkCommit 259200000 7 1 1 1, mkCommit 604800000 2 0 9 1, mkCommit 691199999 8 500 400 30]
   \<and> map (\<lambda>c. committedAt c div 86400000) [mkCommit 5 1 10 5 2, mkCommit 86400000 1 12 3 2] =
      map (\<lambda>c. committedAt c div 86400000) [mkCommit 77 9 0 0 0, mkCommit 90000000 3 1 1 1]
   \<and> calculateConsistencyScore [mkCommit 5 1 10 5 2, mkCommit 86400000 1 12 3 2] =
      calculateConsistencyScore [mkCommit 77 9 0 0 0, mkCommit 90000000 3 1 1 1]"
proof -
  let ?a = "[mkCommit 0 1 10 5 2, mkCommit 86400000 1 12 3 2, mkCommit 86400001 1 0 0 0]"
  let ?b = "[mkCommit 259200000 7 1 1 1, mkCommit 604800000 2 0 9 1, mkCommit 691199999 8 500 400 30]"
  let ?c = "[mkCommit 5 1 10 5 2, mkCommit 86400000 1 12 3 2]"
  let ?d = "[mkCommit 77 9 0 0 0, mkCommit 90000000 3 1 1 1]"
  have h1: "dayCounts ?a = dayCounts ?b"
    by (simp add: dayCounts_def mkCommit_def utcDayNumber_def)
  have h2: "map (\<lambda>c. committedAt c div 86400000) ?c = map (\<lambda>c. committedAt c div 86400000) ?d"
    by (simp add: mkCommit_def)
  have 1: "calculateConsistencyScore ?a = calculateConsistencyScore ?b"
    using C10_consistency_depends_on_day_counts_in_order[of ?a ?b] h1 by blast
  have 2: "calculateConsistencyScore ?c = calculateConsistencyScore ?d"
    using C10_consistency_depends_on_day_counts_in_order[of ?c ?d] h2 by blast
  from h1 h2 1 2 show ?thesis by blast
qed

text \<open>
  Claim C10, as the specification states it, fails: the same eight commits in two
  orders. Both lists have the same commits, hence the same UTC days with the same
  counts; the first meets the day with four commits third and scores 62, the second
  meets it last and scores 63, because the binary64 sums of the squared deviations are
  taken in the order of the days.
\<close>

theorem C10_reordering_counterexample:
  "mset (commitsOnDays [0, 1, 3, 4, 2, 2, 2, 2]) = mset (commitsOnDays [0, 1, 2, 2, 2, 2, 3, 4])
   \<and> mset (map utcDayNumber (map committedAt (commitsOnDays [0, 1, 3, 4, 2, 2, 2, 2]))) =
       mset (map utcDayNumber (map committedAt (commitsOnDays [0, 1, 2, 2, 2, 2, 3, 4])))
   \<and> calculateConsistencyScore (commitsOnDays [0, 1, 2, 2, 2, 2, 3, 4]) \<noteq>
       calculateConsistencyScore (commitsOnDays [0, 1, 3, 4, 2, 2, 2, 2])"
proof -
  have m: "mset (commitsOnDays [0, 1, 3, 4, 2, 2, 2, 2]) =
           mset (commitsOnDays [0, 1, 2, 2, 2, 2, 3, 4])"
    by (simp add: commitsOnDays_def)
  then have "mset (map utcDayNumber (map committedAt (commitsOnDays [0, 1, 3, 4, 2, 2, 2, 2]))) =
       mset (map utcDayNumber (map committedAt (commitsOnDays [0, 1, 2, 2, 2, 2, 3, 4])))"
    by (metis mset_map)
  with m show ?thesis by (simp only: score_days_A score_days_B) simp
qed

subsection \<open>calculateLearningVelocity and calculateDepthBreadthRatio\<close>

text \<open>
  Below \<open>10 ^ 21\<close> the result of \<open>parseFloat(x.toFixed(2))\<close> is the binary64 number nearest
  to the two-decimal rounding of \<open>x\<close>; the quotients of both functions stay below.
\<close>

lemma fdiv_nonneg: "0 \<le> a \<Longrightarrow> 0 \<le> b \<Longrightarrow> 0 \<le> fdiv a b"
  by (simp add: fdiv_def fl_nonneg)

lemma fl_le_twice: "0 \<le> x \<Longrightarrow> fl x \<le> 2 * x"
  using fl_bounds(2)[of x] by (cases "x = 0") simp_all

lemma divide_le_self:
  fixes x y :: real
  assumes "0 \<le> x" and "1 \<le> y"
  shows "x / y \<le> x"
proof -
  have "x * 1 \<le> x * y" using assms by (intro mult_left_mono) simp_all
  moreover have "0 < y" using assms(2) by simp
  ultimately show ?thesis by (simp add: pos_divide_le_eq)
qed

lemma toFixed2_round2: "0 \<le> x \<Longrightarrow> x < 10 ^ 21 \<Longrightarrow> toFixed2 x = fl (round2 x)"
  by (simp add: toFixed2_def toFixed2_abs_def round2_def round_def mult.commute)

lemma toFixed2_nonneg:
  assumes "0 \<le> x"
  shows "0 \<le> toFixed2 x"
proof (cases "x \<ge> 10 ^ 21")
  case True
  then show ?thesis using assms by (simp add: toFixed2_def toFixed2_abs_def)
next
  case False
  have "0 \<le> x * 100 + 1 / 2" using assms by simp
  then have "0 \<le> \<lfloor>x * 100 + 1 / 2\<rfloor>" by simp
  then have "0 \<le> real_of_int \<lfloor>x * 100 + 1 / 2\<rfloor> / 100" by simp
  then have "0 \<le> fl (real_of_int \<lfloor>x * 100 + 1 / 2\<rfloor> / 100)" by (rule fl_nonneg)
  then show ?thesis using assms False by (simp add: toFixed2_def toFixed2_abs_def)
qed

lemma Math_round_range:
  assumes "0 \<le> x" and "x \<le> 100"
  shows "0 \<le> Math_round x \<and> Math_round x \<le> 100"
proof -
  have "clamp x 0 100 = x" using assms by (simp add: clamp_def)
  with Math_round_clamp_range[of x] show ?thesis by simp
qed

text \<open>Beyond the engine's limit of arguments the call throws.\<close>

lemma calculateLearningVelocity_RangeError:
  "maxArguments < length commits \<Longrightarrow>
   calculateLearningVelocity maxArguments commits = Inl RangeError"
  by (auto simp add: calculateLearningVelocity_def Let_def)

lemma daysDiff_lower:
  assumes "lo < hi"
  shows "1 / 172800000 < fdiv (fsub (real_of_int hi) (real_of_int lo)) (real_of_int msPerDay)"
proof -
  have "1 \<le> real_of_int hi - real_of_int lo" using assms by linarith
  then have "fl 1 \<le> fl (real_of_int hi - real_of_int lo)" by (intro fl_mono) simp_all
  then have one: "1 \<le> fl (real_of_int hi - real_of_int lo)" by simp
  let ?x = "fl (real_of_int hi - real_of_int lo) / 86400000"
  have pos: "0 < ?x" using one by simp
  have "1 / 86400000 \<le> ?x" using one by (simp add: divide_right_mono)
  moreover have "?x / 2 < fl ?x" by (rule fl_bounds(1)[OF pos])
  ultimately show ?thesis by (simp add: fdiv_def fsub_def msPerDay_def)
qed

lemma velocity_quotient_bounds:
  assumes "n < (2::nat) ^ 32" and "1 / 172800000 < d"
  shows "0 \<le> fdiv (real n) d \<and> fdiv (real n) d < 10 ^ 21"
proof -
  have dpos: "0 < d" using assms(2) by (rule less_trans[rotated]) simp
  have n: "real n < 2 ^ 32" using assms(1) by (simp add: of_nat_less_numeral_power_cancel_iff)
  have q0: "0 \<le> real n / d" using dpos by simp
  have "real n / d \<le> real n / (1 / 172800000)"
    using assms(2) by (intro divide_left_mono) simp_all
  then have "real n / d \<le> real n * 172800000" by simp
  also have "\<dots> < 2 ^ 32 * 172800000" using n by simp
  finally have q1: "real n / d < 2 ^ 32 * 172800000" .
  have "fl (real n / d) \<le> 2 * (real n / d)" by (rule fl_le_twice[OF q0])
  with q1 have "fl (real n / d) < 10 ^ 21" by simp
  then show ?thesis using q0 by (simp add: fdiv_def fl_nonneg)
qed

text \<open>
  Claim C6, as the specification states it, fails: three commits over 200 days. The
  quotient \<open>3 / 200\<close> is 0.015 and rounds to 0.02; the binary64 quotient lies below 0.015,
  \<open>toFixed(2)\<close> prints \<open>0.01\<close>, and the function returns the binary64 number nearest to
  0.01.
\<close>

theorem C6_exact_quotient_counterexample:
  "calculateLearningVelocity 65536
     [mkCommit 0 1 10 5 2, mkCommit 86400000 1 12 3 2, mkCommit 17280000000 1 7 0 1] =
     Inr (fl (1 / 100))
   \<and> round2 (3 / ((17280000000 - 0) / 86400000)) = 2 / 100
   \<and> fl (1 / 100) \<noteq> 2 / 100
   \<and> fl (1 / 100) \<noteq> fl (2 / 100)"
proof -
  have "toFixed2 (fdiv 3 200) = fl (1 / 100)"
    by (simp add: toFixed2_def toFixed2_abs_def fdiv_def fl_at)
  then have "calculateLearningVelocity 65536
     [mkCommit 0 1 10 5 2, mkCommit 86400000 1 12 3 2, mkCommit 17280000000 1 7 0 1] =
     Inr (fl (1 / 100))"
    by (simp add: calculateLearningVelocity_def Let_def mkCommit_def msPerDay_def fsub_def
        fdiv_def)
  moreover have "round2 (3 / ((17280000000 - 0) / 86400000)) = 2 / 100"
    by (simp add: round2_def round_def)
  moreover have "fl (1 / 100) \<noteq> 2 / 100" by (simp add: fl_at)
  moreover have "fl (1 / 100) \<noteq> fl (2 / 100)" by (simp add: fl_at)
  ultimately show ?thesis by blast
qed

text \<open>
  Claim C6, amended. \<open>calculateLearningVelocity\<close> returns 0 for an empty commit list. For
  a non-empty list that the engine accepts as the arguments of \<open>Math.min\<close> and \<open>Math.max\<close>:
  when the earliest and the latest commit time coincide it returns the number of
  commits; otherwise, for an array of fewer than \<open>2 ^ 32\<close> commits, it returns the
  binary64 number nearest to the two-decimal rounding of the binary64 quotient of the
  number of commits by \<open>daysDiff\<close>, the binary64 quotient of the span in milliseconds by
  86400000. Two commits exactly 10 days apart yield the binary64 number nearest to 0.2.
\<close>

theorem C6_calculateLearningVelocity_binary64:
  "calculateLearningVelocity maxArguments [] = Inr 0
   \<and> (commits \<noteq> [] \<and> length commits \<le> maxArguments
       \<and> Min (set (map committedAt commits)) = Max (set (map committedAt commits)) \<longrightarrow>
        calculateLearningVelocity maxArguments commits = Inr (real (length commits)))
   \<and> (commits \<noteq> [] \<and> length commits \<le> maxArguments \<and> length commits < 2 ^ 32
       \<and> Min (set (map committedAt commits)) \<noteq> Max (set (map committedAt commits)) \<longrightarrow>
        calculateLearningVelocity maxArguments commits =
          Inr (fl (round2 (fdiv (real (length commits))
                 (fdiv (fsub (real_of_int (Max (set (map committedAt commits))))
                          (real_of_int (Min (set (map committedAt commits)))))
                    86400000)))))
   \<and> (2 \<le> maxArguments \<and> committedAt later = committedAt earlier + 10 * 86400000 \<longrightarrow>
        calculateLearningVelocity maxArguments [earlier, later] = Inr (fl (2 / 10))
        \<and> calculateLearningVelocity maxArguments [later, earlier] = Inr (fl (2 / 10)))"
proof (intro conjI impI)
  show "calculateLearningVelocity maxArguments [] = Inr 0"
    by (simp add: calculateLearningVelocity_def)
next
  assume a: "commits \<noteq> [] \<and> length commits \<le> maxArguments
       \<and> Min (set (map committedAt commits)) = Max (set (map committedAt commits))"
  then show "calculateLearningVelocity maxArguments commits = Inr (real (length commits))"
    by (simp add: calculateLearningVelocity_def Let_def fsub_def fdiv_def)
next
  assume a: "commits \<noteq> [] \<and> length commits \<le> maxArguments \<and> length commits < 2 ^ 32
       \<and> Min (set (map committedAt commits)) \<noteq> Max (set (map committedAt commits))"
  let ?lo = "Min (set (map committedAt commits))"
  let ?hi = "Max (set (map committedAt commits))"
  let ?d = "fdiv (fsub (real_of_int ?hi) (real_of_int ?lo)) (real_of_int msPerDay)"
  from a have ne: "commits \<noteq> []" and le: "length commits \<le> maxArguments"
    and len: "length commits < 2 ^ 32" and neq: "?lo \<noteq> ?hi" by blast+
  have "?lo \<in> set (map committedAt commits)" using ne by (intro Min_in) simp_all
  then have "?lo \<le> ?hi" by (intro Max_ge) simp_all
  with neq have "?lo < ?hi" by simp
  then have d: "1 / 172800000 < ?d" by (rule daysDiff_lower)
  then have d0: "?d \<noteq> 0" by auto
  have q: "0 \<le> fdiv (real (length commits)) ?d \<and> fdiv (real (length commits)) ?d < 10 ^ 21"
    by (rule velocity_quotient_bounds[OF len d])
  have "toFixed2 (fdiv (real (length commits)) ?d) = fl (round2 (fdiv (real (length commits)) ?d))"
    using q by (intro toFixed2_round2) simp_all
  then have "calculateLearningVelocity maxArguments commits =
        Inr (fl (round2 (fdiv (real (length commits)) ?d)))"
    using ne le d0 by (simp add: calculateLearningVelocity_def Let_def)
  then show "calculateLearningVelocity maxArguments commits =
          Inr (fl (round2 (fdiv (real (length commits))
                 (fdiv (fsub (real_of_int ?hi) (real_of_int ?lo)) 86400000))))"
    by (simp add: msPerDay_def)
next
  assume a: "2 \<le> maxArguments \<and> committedAt later = committedAt earlier + 10 * 86400000"
  have t: "toFixed2 (fdiv 2 10) = fl (2 / 10)"
    by (simp add: toFixed2_def toFixed2_abs_def fdiv_def fl_at)
  show "calculateLearningVelocity maxArguments [earlier, later] = Inr (fl (2 / 10))"
    using a t by (simp add: calculateLearningVelocity_def Let_def msPerDay_def fsub_def fdiv_def)
  show "calculateLearningVelocity maxArguments [later, earlier] = Inr (fl (2 / 10))"
    using a t by (simp add: calculateLearningVelocity_def Let_def msPerDay_def fsub_def fdiv_def)
qed

theorem C6_calculateLearningVelocity_binary64_witness:
  "calculateLearningVelocity 65536 [] = Inr 0
   \<and> calculateLearningVelocity 65536 [mkCommit 5000 1 10 5 2, mkCommit 5000 2 0 1 1] = Inr 2
   \<and> calculateLearningVelocity 65536
       [mkCommit 86400000 1 10 5 2, mkCommit 0 2 0 1 1, mkCommit 604800000 1 3 3 1] =
       Inr (fl (43 / 100))
   \<and> calculateLearningVelocity 65536 [mkCommit 1000 1 10 5 2, mkCommit 864001000 2 0 1 1] =
       Inr (fl (2 / 10))"
proof -
  let ?same = "[mkCommit 5000 1 10 5 2, mkCommit 5000 2 0 1 1]"
  let ?week = "[mkCommit 86400000 1 10 5 2, mkCommit 0 2 0 1 1, mkCommit 604800000 1 3 3 1]"
  let ?c1 = "mkCommit 1000 1 10 5 2"
  let ?c2 = "mkCommit 864001000 2 0 1 1"
  have s: "?same \<noteq> [] \<and> length ?same \<le> 65536
       \<and> Min (set (map committedAt ?same)) = Max (set (map committedAt ?same))"
    by (simp add: mkCommit_def)
  have lo: "Min (set (map committedAt ?week)) = 0" by (simp add: mkCommit_def)
  have hi: "Max (set (map committedAt ?week)) = 604800000" by (simp add: mkCommit_def)
  have w: "?week \<noteq> [] \<and> length ?week \<le> 65536 \<and> length ?week < 2 ^ 32
       \<and> Min (set (map committedAt ?week)) \<noteq> Max (set (map committedAt ?week))"
    by (simp only: lo hi) simp
  have r: "fl (round2 (fdiv (real (length ?week))
                 (fdiv (fsub (real_of_int (Max (set (map committedAt ?week))))
                          (real_of_int (Min (set (map committedAt ?week)))))
                    86400000))) = fl (43 / 100)"
    by (simp only: lo hi) (simp add: fsub_def fdiv_def round2_def round_def fl_at)
  have p: "(2::nat) \<le> 65536 \<and> committedAt ?c2 = committedAt ?c1 + 10 * 86400000"
    by (simp add: mkCommit_def)
  have 1: "calculateLearningVelocity 65536 [] = Inr 0"
    using C6_calculateLearningVelocity_binary64[where maxArguments = 65536 and commits = "[]" and earlier = ?c1 and later = ?c2] by blast
  have 2: "calculateLearningVelocity 65536 ?same = Inr (real (length ?same))"
    using C6_calculateLearningVelocity_binary64[where maxArguments = 65536 and commits = ?same and earlier = ?c1 and later = ?c2] s by blast
  have 3: "calculateLearningVelocity 65536 ?week = Inr (fl (43 / 100))"
    using C6_calculateLearningVelocity_binary64[where maxArguments = 65536 and commits = ?week and earlier = ?c1 and later = ?c2] w r by presburger
  have 4: "calculateLearningVelocity 65536 [?c1, ?c2] = Inr (fl (2 / 10))"
    using C6_calculateLearningVelocity_binary64[where maxArguments = 65536 and commits = "[]" and earlier = ?c1 and later = ?c2] p by blast
  from 1 2 3 4 show ?thesis by simp
qed

text \<open>
  Claim C8, as the specification states it, fails: 4 repositories, 3 commits and 10
  languages. The quotient \<open>(3 / 4) / 10\<close> is 0.075 and rounds to 0.08; the binary64
  quotient lies below 0.075, \<open>toFixed(2)\<close> prints \<open>0.07\<close>, and the function returns the
  binary64 number nearest to 0.07.
\<close>

theorem C8_exact_quotient_counterexample:
  "calculateDepthBreadthRatio (replicate 4 (mkRepository 100))
     (replicate 3 (mkCommit 0 1 10 5 2)) (replicate 10 (mkLanguage ''Go'' 1 0)) = fl (7 / 100)
   \<and> round2 ((3 / 4) / 10) = 8 / 100
   \<and> fl (7 / 100) \<noteq> 8 / 100
   \<and> fl (7 / 100) \<noteq> fl (8 / 100)"
proof -
  have "toFixed2 (fdiv (fdiv 3 4) 10) = fl (7 / 100)"
    by (simp add: toFixed2_def toFixed2_abs_def fdiv_def fl_at)
  then have "calculateDepthBreadthRatio (replicate 4 (mkRepository 100))
     (replicate 3 (mkCommit 0 1 10 5 2)) (replicate 10 (mkLanguage ''Go'' 1 0)) = fl (7 / 100)"
    by (simp add: calculateDepthBreadthRatio_def Let_def)
  moreover have "round2 ((3 / 4) / 10) = 8 / 100"
    by (simp add: round2_def round_def)
  moreover have "fl (7 / 100) \<noteq> 8 / 100" by (simp add: fl_at)
  moreover have "fl (7 / 100) \<noteq> fl (8 / 100)" by (simp add: fl_at)
  ultimately show ?thesis by blast
qed

text \<open>
  Claim C8, amended. \<open>calculateDepthBreadthRatio\<close> returns 0 whenever the repositories
  or the languages are empty, whatever the commits; otherwise, for an array of fewer
  than \<open>2 ^ 32\<close> commits, it returns the binary64 number nearest to the two-decimal
  rounding of the binary64 quotient \<open>(commitCount / repositoryCount) / languageCount\<close>,
  each division rounded to binary64. The result is never negative.
\<close>

theorem C8_calculateDepthBreadthRatio_binary64:
  "(repositories = [] \<or> languages = [] \<longrightarrow>
      calculateDepthBreadthRatio repositories commits languages = 0)
   \<and> (repositories \<noteq> [] \<and> languages \<noteq> [] \<and> length commits < 2 ^ 32 \<longrightarrow>
        calculateDepthBreadthRatio repositories commits languages =
          fl (round2 (fdiv (fdiv (real (length commits)) (real (length repositories)))
                 (real (length languages)))))
   \<and> 0 \<le> calculateDepthBreadthRatio repositories commits languages"
proof (intro conjI impI)
  assume "repositories = [] \<or> languages = []"
  then show "calculateDepthBreadthRatio repositories commits languages = 0"
    by (auto simp add: calculateDepthBreadthRatio_def)
next
  assume a: "repositories \<noteq> [] \<and> languages \<noteq> [] \<and> length commits < 2 ^ 32"
  let ?c = "real (length commits)"
  let ?r = "real (length repositories)"
  let ?l = "real (length languages)"
  have r: "1 \<le> ?r" using a by (cases repositories) simp_all
  have l: "1 \<le> ?l" using a by (cases languages) simp_all
  from a have c: "?c < 2 ^ 32" by (simp add: of_nat_less_numeral_power_cancel_iff)
  have cr: "?c / ?r \<le> ?c" by (rule divide_le_self[OF _ r]) simp
  have d0: "0 \<le> fdiv ?c ?r" by (simp add: fdiv_nonneg)
  have "fdiv ?c ?r \<le> 2 * (?c / ?r)" unfolding fdiv_def by (rule fl_le_twice) simp
  with cr have d1: "fdiv ?c ?r \<le> 2 * ?c" by simp
  have "fdiv ?c ?r / ?l \<le> fdiv ?c ?r" by (rule divide_le_self[OF d0 l])
  with d1 have dl: "fdiv ?c ?r / ?l \<le> 2 * ?c" by simp
  have q0: "0 \<le> fdiv (fdiv ?c ?r) ?l" using d0 by (simp add: fdiv_nonneg)
  have "fdiv (fdiv ?c ?r) ?l \<le> 2 * (fdiv ?c ?r / ?l)"
    unfolding fdiv_def[of "fdiv ?c ?r"] using d0 by (intro fl_le_twice) simp
  with dl c have q1: "fdiv (fdiv ?c ?r) ?l < 10 ^ 21" by simp
  have "toFixed2 (fdiv (fdiv ?c ?r) ?l) = fl (round2 (fdiv (fdiv ?c ?r) ?l))"
    by (rule toFixed2_round2[OF q0 q1])
  then show "calculateDepthBreadthRatio repositories commits languages =
          fl (round2 (fdiv (fdiv ?c ?r) ?l))"
    using a by (simp add: calculateDepthBreadthRatio_def Let_def)
next
  show "0 \<le> calculateDepthBreadthRatio repositories commits languages"
    by (simp add: calculateDepthBreadthRatio_def Let_def toFixed2_nonneg fdiv_nonneg)
qed

theorem C8_calculateDepthBreadthRatio_binary64_witness:
  "calculateDepthBreadthRatio [] [mkCommit 0 1 10 5 2] [mkLanguage ''Go'' 1 0] = 0
   \<and> calculateDepthBreadthRatio [mkRepository 100] [mkCommit 0 1 10 5 2] [] = 0
   \<and> calculateDepthBreadthRatio [mkRepository 100, mkRepository 7]
        [mkCommit 0 1 10 5 2] [mkLanguage ''Go'' 1 0, mkLanguage ''C'' 4 9] = fl (25 / 100)
   \<and> 0 \<le> calculateDepthBreadthRatio [mkRepository 100, mkRepository 7]
        [mkCommit 0 1 10 5 2] [mkLanguage ''Go'' 1 0, mkLanguage ''C'' 4 9]"
proof -
  let ?rs = "[mkRepository 100, mkRepository 7]"
  let ?cs = "[mkCommit 0 1 10 5 2]"
  let ?ls = "[mkLanguage ''Go'' 1 0, mkLanguage ''C'' 4 9]"
  have h: "?rs \<noteq> [] \<and> ?ls \<noteq> [] \<and> length ?cs < 2 ^ 32" by simp
  have r: "fl (round2 (fdiv (fdiv (real (length ?cs)) (real (length ?rs))) (real (length ?ls))))
           = fl (25 / 100)"
    by (simp add: fdiv_def round2_def round_def fl_at)
  have 1: "calculateDepthBreadthRatio [] ?cs [mkLanguage ''Go'' 1 0] = 0"
    using C8_calculateDepthBreadthRatio_binary64[of "[]" "[mkLanguage ''Go'' 1 0]" ?cs] by blast
  have 2: "calculateDepthBreadthRatio [mkRepository 100] ?cs [] = 0"
    using C8_calculateDepthBreadthRatio_binary64[of "[mkRepository 100]" "[]" ?cs] by blast
  have 3: "calculateDepthBreadthRatio ?rs ?cs ?ls = fl (25 / 100)"
    using C8_calculateDepthBreadthRatio_binary64[of ?rs ?ls ?cs] h r by presburger
  have 4: "0 \<le> calculateDepthBreadthRatio ?rs ?cs ?ls"
    using C8_calculateDepthBreadthRatio_binary64[of ?rs ?ls ?cs] by blast
  from 1 2 3 4 show ?thesis by blast
qed

subsection \<open>calculateProjectDepth\<close>

lemma foldl_fadd_nonneg_set:
  "0 \<le> a \<Longrightarrow> \<forall>x\<in>set xs. 0 \<le> g x \<Longrightarrow> 0 \<le> foldl (\<lambda>s x. fadd s (g x)) a xs"
  by (induction xs arbitrary: a) (simp_all add: fadd_def fl_nonneg)

text \<open>Sums of non-negative integers that stay below \<open>2 ^ 53\<close> are exact.\<close>

lemma foldl_fadd_exact:
  "0 \<le> a \<Longrightarrow> \<forall>x\<in>set xs. 0 \<le> f x \<Longrightarrow> a + sum_list (map f xs) < 2 ^ 53 \<Longrightarrow>
   foldl (\<lambda>s x. fadd s (real_of_int (f x))) (real_of_int a) xs =
   real_of_int (a + sum_list (map f xs))"
proof (induction xs arbitrary: a)
  case Nil
  then show ?case by simp
next
  case (Cons x xs)
  have rest: "0 \<le> sum_list (map f xs)"
    using Cons.prems(2) by (intro sum_list_nonneg) auto
  have x0: "0 \<le> f x" using Cons.prems(2) by simp
  have lt: "a + f x < 2 ^ 53" using Cons.prems(3) rest by simp
  have "fl (real_of_int (a + f x)) = real_of_int (a + f x)"
    using Cons.prems(1) x0 lt by (intro fl_of_int) simp_all
  then have step: "fadd (real_of_int a) (real_of_int (f x)) = real_of_int (a + f x)"
    by (simp add: fadd_def)
  have "foldl (\<lambda>s x. fadd s (real_of_int (f x))) (real_of_int (a + f x)) xs =
        real_of_int (a + f x + sum_list (map f xs))"
    using Cons.prems x0 by (intro Cons.IH) (simp_all add: add.assoc)
  then show ?case by (simp add: step add.assoc)
qed

lemma weight_04: "fmul 100 (fl (4 / 10)) = 40"
  by (simp add: fmul_def fl_at)

lemma weight_06: "fmul 100 (fl (6 / 10)) = 60"
  by (simp add: fmul_def fl_at)

lemma weighted_le:
  assumes "0 \<le> s" and "s \<le> 100" and "0 \<le> w"
  shows "0 \<le> fmul s w \<and> fmul s w \<le> fmul 100 w"
proof -
  have "0 \<le> s * w" using assms by simp
  moreover have "s * w \<le> 100 * w" using assms by (intro mult_right_mono) simp_all
  ultimately show ?thesis unfolding fmul_def by (simp add: fl_nonneg fl_mono)
qed

lemma depthScore_range:
  assumes "0 \<le> s" and "s \<le> 100" and "0 \<le> d" and "d \<le> 100"
  shows "0 \<le> fadd (fmul s (fl (4 / 10))) (fmul d (fl (6 / 10)))
         \<and> fadd (fmul s (fl (4 / 10))) (fmul d (fl (6 / 10))) \<le> 100"
proof -
  have w4: "0 \<le> fl (4 / 10)" by (rule fl_nonneg) simp
  have w6: "0 \<le> fl (6 / 10)" by (rule fl_nonneg) simp
  have a: "0 \<le> fmul s (fl (4 / 10))" "fmul s (fl (4 / 10)) \<le> 40"
    using weighted_le[OF assms(1,2) w4] by (simp_all only: weight_04)
  have b: "0 \<le> fmul d (fl (6 / 10))" "fmul d (fl (6 / 10)) \<le> 60"
    using weighted_le[OF assms(3,4) w6] by (simp_all only: weight_06)
  have lo: "0 \<le> fmul s (fl (4 / 10)) + fmul d (fl (6 / 10))" using a(1) b(1) by simp
  have hi: "fmul s (fl (4 / 10)) + fmul d (fl (6 / 10)) \<le> 100" using a(2) b(2) by simp
  have "0 \<le> fl (fmul s (fl (4 / 10)) + fmul d (fl (6 / 10)))" using lo by (rule fl_nonneg)
  moreover have "fl (fmul s (fl (4 / 10)) + fmul d (fl (6 / 10))) \<le> fl 100"
    using lo hi by (rule fl_mono)
  moreover have "fl 100 = 100" by simp
  ultimately show ?thesis by (simp add: fadd_def)
qed

text \<open>
  Claim C9, as the specification states it, fails: 6 repositories of size 0 and one
  commit. \<open>sizeScore\<close> is 0 and \<open>densityScore\<close> is \<open>1 / 6 * 5\<close>, so that the formula gives
  \<open>round 0.5 = 1\<close>; in binary64 the weighted sum is 0.49999999999999994, and the function
  returns 0. With 11 commits the formula gives \<open>round 5.5 = 6\<close>, whichever way a tie is
  rounded, and the function returns 5.
\<close>

theorem C9_exact_formula_counterexample:
  "calculateProjectDepth (replicate 6 (mkRepository 0)) [mkCommit 0 1 10 5 2] = 0
   \<and> Math_round (min 100 (0 / 6 / 1000 * 100) * (4 / 10) + min 100 (1 / 6 * 5) * (6 / 10)) = 1
   \<and> calculateProjectDepth (replicate 6 (mkRepository 0)) (replicate 11 (mkCommit 0 1 10 5 2))
       = 5
   \<and> min 100 (0 / 6 / 1000 * 100) * (4 / 10) + min 100 (11 / 6 * 5) * (6 / 10) = (11 / 2 :: real)
   \<and> Math_round (11 / 2) = 6"
proof -
  have z: "foldl (\<lambda>sum repo. fadd sum (real_of_int (repo_size repo))) 0
          (replicate 6 (mkRepository 0)) = 0"
    by (simp add: numeral_eq_Suc mkRepository_def fadd_def)
  have "calculateProjectDepth (replicate 6 (mkRepository 0)) [mkCommit 0 1 10 5 2] = 0"
    using z by (simp add: calculateProjectDepth_def Let_def fdiv_def fmul_def fadd_def
        Math_round_def fl_at)
  moreover have
    "Math_round (min 100 (0 / 6 / 1000 * 100) * (4 / 10) + min 100 (1 / 6 * 5) * (6 / 10)) = 1"
    by (simp add: Math_round_def)
  moreover have
    "calculateProjectDepth (replicate 6 (mkRepository 0)) (replicate 11 (mkCommit 0 1 10 5 2))
     = 5"
    using z by (simp add: calculateProjectDepth_def Let_def fdiv_def fmul_def fadd_def
        Math_round_def fl_at)
  moreover have
    "min 100 (0 / 6 / 1000 * 100) * (4 / 10) + min 100 (11 / 6 * 5) * (6 / 10) = (11 / 2 :: real)"
    by simp
  moreover have "Math_round (11 / 2) = 6" by (simp add: Math_round_def)
  ultimately show ?thesis by blast
qed

text \<open>
  Claim C9, amended. \<open>calculateProjectDepth\<close> returns 0 for an empty repository list. For
  every non-empty repository list with non-negative sizes whose sum is below \<open>2 ^ 53\<close> it
  returns \<open>Math.round\<close> of \<open>sizeScore * 0.4 + densityScore * 0.6\<close> evaluated in binary64,
  every product, quotient and sum rounded to binary64 and 0.4 and 0.6 the binary64
  numbers nearest to them, where \<open>sizeScore = min(100, avgSize / 1000 * 100)\<close> and
  \<open>densityScore = min(100, (commitCount / repositoryCount) * 5)\<close>. For every non-empty
  repository list with non-negative sizes the result is an integer in \<open>[0, 100]\<close>.
\<close>

theorem C9_calculateProjectDepth_binary64:
  "calculateProjectDepth [] commits = 0
   \<and> (repositories \<noteq> [] \<and> (\<forall>r\<in>set repositories. 0 \<le> repo_size r)
       \<and> sum_list (map repo_size repositories) < 2 ^ 53 \<longrightarrow>
        (let avgSize = fdiv (real_of_int (sum_list (map repo_size repositories)))
                         (real (length repositories));
             sizeScore = min 100 (fmul (fdiv avgSize 1000) 100);
             densityScore =
               min 100 (fmul (fdiv (real (length commits)) (real (length repositories))) 5)
         in calculateProjectDepth repositories commits =
              Math_round (fadd (fmul sizeScore (fl (4 / 10))) (fmul densityScore (fl (6 / 10))))))
   \<and> (repositories \<noteq> [] \<and> (\<forall>r\<in>set repositories. 0 \<le> repo_size r) \<longrightarrow>
        0 \<le> calculateProjectDepth repositories commits
        \<and> calculateProjectDepth repositories commits \<le> 100
        \<and> calculateProjectDepth repositories commits \<in> \<int>)"
proof (intro conjI impI)
  show "calculateProjectDepth [] commits = 0"
    by (simp add: calculateProjectDepth_def)
next
  assume a: "repositories \<noteq> [] \<and> (\<forall>r\<in>set repositories. 0 \<le> repo_size r)
       \<and> sum_list (map repo_size repositories) < 2 ^ 53"
  have "foldl (\<lambda>s x. fadd s (real_of_int (repo_size x))) (real_of_int 0) repositories =
        real_of_int (0 + sum_list (map repo_size repositories))"
    using a by (intro foldl_fadd_exact) simp_all
  then have "foldl (\<lambda>sum repo. fadd sum (real_of_int (repo_size repo))) 0 repositories =
        real_of_int (sum_list (map repo_size repositories))"
    by simp
  then show "let avgSize = fdiv (real_of_int (sum_list (map repo_size repositories)))
                         (real (length repositories));
             sizeScore = min 100 (fmul (fdiv avgSize 1000) 100);
             densityScore =
               min 100 (fmul (fdiv (real (length commits)) (real (length repositories))) 5)
         in calculateProjectDepth repositories commits =
              Math_round (fadd (fmul sizeScore (fl (4 / 10))) (fmul densityScore (fl (6 / 10))))"
    using a by (simp add: calculateProjectDepth_def Let_def)
next
  assume a: "repositories \<noteq> [] \<and> (\<forall>r\<in>set repositories. 0 \<le> repo_size r)"
  let ?sum = "foldl (\<lambda>sum repo. fadd sum (real_of_int (repo_size repo))) 0 repositories"
  let ?s = "min 100 (fmul (fdiv (fdiv ?sum (real (length repositories))) 1000) 100)"
  let ?d = "min 100 (fmul (fdiv (real (length commits)) (real (length repositories))) 5)"
  let ?x = "fadd (fmul ?s (fl (4 / 10))) (fmul ?d (fl (6 / 10)))"
  have "0 \<le> ?sum" using a by (intro foldl_fadd_nonneg_set) simp_all
  then have "0 \<le> fmul (fdiv (fdiv ?sum (real (length repositories))) 1000) 100"
    by (simp add: fmul_def fdiv_def fl_nonneg)
  then have s: "0 \<le> ?s" "?s \<le> 100" by simp_all
  have "0 \<le> fmul (fdiv (real (length commits)) (real (length repositories))) 5"
    by (simp add: fmul_def fdiv_def fl_nonneg)
  then have d: "0 \<le> ?d" "?d \<le> 100" by simp_all
  have x: "0 \<le> ?x \<and> ?x \<le> 100" by (rule depthScore_range[OF s d])
  have r: "calculateProjectDepth repositories commits = Math_round ?x"
    using a by (simp add: calculateProjectDepth_def Let_def)
  have "clamp ?x 0 100 = ?x" using x by (simp add: clamp_def)
  with Math_round_clamp_range[of ?x]
  have m: "0 \<le> Math_round ?x \<and> Math_round ?x \<le> 100 \<and> Math_round ?x \<in> \<int>" by simp
  show "0 \<le> calculateProjectDepth repositories commits" using m by (simp only: r)
  show "calculateProjectDepth repositories commits \<le> 100" using m by (simp only: r)
  show "calculateProjectDepth repositories commits \<in> \<int>" using m by (simp only: r)
qed

theorem C9_calculateProjectDepth_binary64_witness:
  "calculateProjectDepth [] [mkCommit 0 1 10 5 2] = 0
   \<and> [mkRepository 500, mkRepository 1500] \<noteq> []
   \<and> 0 \<le> repo_size (mkRepository 500) \<and> 0 \<le> repo_size (mkRepository 1500)
   \<and> sum_list (map repo_size [mkRepository 500, mkRepository 1500]) < 2 ^ 53
   \<and> calculateProjectDepth [mkRepository 500, mkRepository 1500]
        [mkCommit 0 1 10 5 2, mkCommit 1 1 0 1 1, mkCommit 2 2 4 4 4] = 45
   \<and> calculateProjectDepth [mkRepository 500, mkRepository 1500]
        [mkCommit 0 1 10 5 2, mkCommit 1 1 0 1 1, mkCommit 2 2 4 4 4] \<le> 100"
proof -
  let ?rs = "[mkRepository 500, mkRepository 1500]"
  let ?cs = "[mkCommit 0 1 10 5 2, mkCommit 1 1 0 1 1, mkCommit 2 2 4 4 4]"
  have h0: "0 \<le> repo_size (mkRepository 500)" "0 \<le> repo_size (mkRepository 1500)"
    by (simp_all add: mkRepository_def)
  have sz: "sum_list (map repo_size ?rs) = 2000" by (simp add: mkRepository_def)
  have h: "?rs \<noteq> [] \<and> (\<forall>r\<in>set ?rs. 0 \<le> repo_size r) \<and> sum_list (map repo_size ?rs) < 2 ^ 53"
    using h0 by (simp only: sz) simp
  have v: "(let avgSize = fdiv (real_of_int (sum_list (map repo_size ?rs))) (real (length ?rs));
             sizeScore = min 100 (fmul (fdiv avgSize 1000) 100);
             densityScore = min 100 (fmul (fdiv (real (length ?cs)) (real (length ?rs))) 5)
         in Math_round (fadd (fmul sizeScore (fl (4 / 10))) (fmul densityScore (fl (6 / 10)))))
        = 45"
    by (simp only: sz) (simp add: Let_def fdiv_def fmul_def fadd_def Math_round_def fl_at)
  have 1: "calculateProjectDepth [] [mkCommit 0 1 10 5 2] = 0"
    using C9_calculateProjectDepth_binary64[of "[mkCommit 0 1 10 5 2]" "[]"] by blast
  have 2: "calculateProjectDepth ?rs ?cs = 45"
    using C9_calculateProjectDepth_binary64[of ?cs ?rs] h v by (simp only: Let_def) presburger
  have 3: "calculateProjectDepth ?rs ?cs \<le> 100"
    using C9_calculateProjectDepth_binary64[of ?cs ?rs] h by blast
  from 1 2 3 h0 h show ?thesis by blast
qed

subsection \<open>analyzeCommitPatterns\<close>

text \<open>
  For a non-empty commit list the object \<open>commitsByDayOfWeek\<close> has an entry, so the mean
  and the variance divide by a positive number, and the peak day indexes \<open>dayNames\<close>
  within its seven entries. Rounding keeps the order of the two thresholds.
\<close>

lemma getDay_lt_7: "getDay h t < 7"
  by (simp add: getDay_def nat_less_iff)

lemma dom_bumpDayOfWeek: "dom (bumpDayOfWeek obj k) = insert k (dom obj)"
  by (simp add: bumpDayOfWeek_def)

lemma dom_foldl_bumpDayOfWeek:
  "dom (foldl (\<lambda>obj c. bumpDayOfWeek obj (f c)) obj cs) = dom obj \<union> f ` set cs"
  by (induction cs arbitrary: obj) (auto simp: dom_bumpDayOfWeek)

lemma dom_commitsByDayOfWeek:
  "dom (commitsByDayOfWeek h cs) = (\<lambda>c. getDay h (committedAt c)) ` set cs"
  by (simp add: commitsByDayOfWeek_def dom_foldl_bumpDayOfWeek)

lemma set_entries: "set (entries obj) = {(k, c). k < 7 \<and> obj k = Some c}"
  by (auto simp: entries_def split: option.splits)

lemma entries_nonempty:
  assumes "commits \<noteq> []"
  shows "entries (commitsByDayOfWeek h commits) \<noteq> []"
proof -
  obtain c where c: "c \<in> set commits" using assms by (cases commits) auto
  let ?k = "getDay h (committedAt c)"
  have "?k \<in> dom (commitsByDayOfWeek h commits)"
    using c by (auto simp: dom_commitsByDayOfWeek)
  then obtain n where "commitsByDayOfWeek h commits ?k = Some n" by auto
  then have "(?k, n) \<in> set (entries (commitsByDayOfWeek h commits))"
    by (simp add: set_entries getDay_lt_7)
  then show ?thesis by auto
qed

lemma findPeak_step:
  "fst (foldl (\<lambda>(peakDay, maxCommits) (day, n).
              if n > maxCommits then (day, n) else (peakDay, maxCommits)) (p, m) es)
     \<in> insert p (fst ` set es)"
proof (induction es arbitrary: p m)
  case Nil
  show ?case by simp
next
  case (Cons e es)
  obtain d n where e: "e = (d, n)" by (cases e)
  show ?case
  proof (cases "n > m")
    case True
    then show ?thesis using Cons.IH[of d n] by (auto simp: e)
  next
    case False
    then show ?thesis using Cons.IH[of p m] by (auto simp: e)
  qed
qed

lemma peak_in_range: "fst (findPeak (entries obj)) < 7"
proof -
  have "fst (findPeak (entries obj)) \<in> insert 0 (fst ` set (entries obj))"
    unfolding findPeak_def by (rule findPeak_step)
  then show ?thesis by (auto simp: set_entries)
qed

lemma foldl_fadd_nonneg:
  "0 \<le> a \<Longrightarrow> (\<And>x. 0 \<le> g x) \<Longrightarrow> 0 \<le> foldl (\<lambda>s x. fadd s (g x)) a xs"
  by (induction xs arbitrary: a) (simp_all add: fadd_def fl_nonneg)

lemma mean_of_nonneg: "0 \<le> mean_of xs"
proof -
  have "0 \<le> foldl (\<lambda>a b. fadd a (real b)) 0 xs"
    by (rule foldl_fadd_nonneg) simp_all
  then show ?thesis by (simp add: mean_of_def fdiv_def fl_nonneg)
qed

lemma thresholds_exclusive:
  fixes sd m :: real
  assumes "0 \<le> m"
  shows "\<not> (sd > fmul m (fl (5 / 10)) \<and> sd < fmul m (fl (3 / 10)))"
proof
  assume a: "sd > fmul m (fl (5 / 10)) \<and> sd < fmul m (fl (3 / 10))"
  have c: "0 \<le> fl (3 / 10)" "fl (3 / 10) \<le> fl (5 / 10)"
    by (simp_all add: fl_nonneg fl_mono)
  have "m * fl (3 / 10) \<le> m * fl (5 / 10)" using assms c by (intro mult_left_mono) simp_all
  moreover have "0 \<le> m * fl (3 / 10)" using assms c by simp
  ultimately have "fmul m (fl (3 / 10)) \<le> fmul m (fl (5 / 10))"
    unfolding fmul_def by (intro fl_mono)
  with a show False by linarith
qed

text \<open>
  Claim C5. \<open>analyzeCommitPatterns\<close> never returns \<open>burstyPattern\<close> and \<open>consistentPattern\<close>
  both true, and for no commits it returns average 0, peak day Monday and both flags
  false.
\<close>

theorem C5_analyzeCommitPatterns:
  "\<not> (burstyPattern (analyzeCommitPatterns h commits)
       \<and> consistentPattern (analyzeCommitPatterns h commits))
   \<and> analyzeCommitPatterns h [] =
       \<lparr>averageCommitsPerDay = 0, peakDay = ''Monday'',
        burstyPattern = False, consistentPattern = False\<rparr>"
proof
  show "\<not> (burstyPattern (analyzeCommitPatterns h commits)
       \<and> consistentPattern (analyzeCommitPatterns h commits))"
  proof (cases "commits = []")
    case True
    then show ?thesis by (simp add: analyzeCommitPatterns_def)
  next
    case False
    let ?vals = "map snd (entries (commitsByDayOfWeek h commits))"
    have "\<not> (fsqrt (variance_of ?vals) > fmul (mean_of ?vals) (fl (5 / 10))
            \<and> fsqrt (variance_of ?vals) < fmul (mean_of ?vals) (fl (3 / 10)))"
      by (rule thresholds_exclusive[OF mean_of_nonneg])
    with False show ?thesis by (simp add: analyzeCommitPatterns_def Let_def)
  qed
  show "analyzeCommitPatterns h [] =
       \<lparr>averageCommitsPerDay = 0, peakDay = ''Monday'',
        burstyPattern = False, consistentPattern = False\<rparr>"
    by (simp add: analyzeCommitPatterns_def)
qed

theorem C5_analyzeCommitPatterns_witness:
  "\<not> (burstyPattern (analyzeCommitPatterns (utcHost 0)
          [mkCommit 0 1 10 5 2, mkCommit 5 1 1 1 1, mkCommit 86400000 1 1 1 1])
       \<and> consistentPattern (analyzeCommitPatterns (utcHost 0)
          [mkCommit 0 1 10 5 2, mkCommit 5 1 1 1 1, mkCommit 86400000 1 1 1 1]))
   \<and> analyzeCommitPatterns (utcHost 0) [] =
       \<lparr>averageCommitsPerDay = 0, peakDay = ''Monday'',
        burstyPattern = False, consistentPattern = False\<rparr>"
  by (rule C5_analyzeCommitPatterns)


subsection \<open>The window of identifyNewLanguages and calculateSkillGrowthTrend\<close>

text \<open>
  Setting the day of the month to the current one minus \<open>n\<close> moves the local time back by
  \<open>n\<close> days of 86400000 ms, across the ends of months and years.
\<close>

lemma MonthFromTime_range: "0 \<le> MonthFromTime t \<and> MonthFromTime t \<le> 11"
  by (simp add: MonthFromTime_def Let_def)

lemma MakeDay_same_month:
  "MakeDay (YearFromTime t) (MonthFromTime t) (DateFromTime t - n) = Day t - n"
proof -
  have m: "MonthFromTime t div 12 = 0" "MonthFromTime t mod 12 = MonthFromTime t"
    using MonthFromTime_range[of t] by simp_all
  show ?thesis
    by (simp add: MakeDay_def Let_def m DateFromTime_def DayWithinYear_def)
qed

lemma setDate_getDate:
  "setDate h t (getDate h t - n) = TimeClip (UTC h (LocalTime h t - n * msPerDay))"
proof -
  let ?t = "LocalTime h t"
  have "MakeDate (MakeDay (YearFromTime ?t) (MonthFromTime ?t) (DateFromTime ?t - n))
          (TimeWithinDay ?t) = (Day ?t - n) * msPerDay + TimeWithinDay ?t"
    by (simp only: MakeDay_same_month MakeDate_def)
  also have "\<dots> = ?t - n * msPerDay"
    by (simp add: Day_def TimeWithinDay_def algebra_simps)
  finally show ?thesis
    by (simp add: setDate_def getDate_def Let_def)
qed

lemma cutoffDate_eq:
  "cutoffDate h w = TimeClip (UTC h (LocalTime h (clock h) - w * msPerDay))"
  by (simp only: cutoffDate_def setDate_getDate)

text \<open>
  In a zone of fixed offset, UTC for one, the cutoff is the clock reading minus the window
  in days of 86400000 ms.
\<close>

lemma cutoffDate_fixed_offset:
  assumes "\<forall>t. localTZA_utc h t = off" and "\<forall>t. localTZA_local h t = off"
    and "\<bar>clock h - w * msPerDay\<bar> \<le> 8640000000000000"
  shows "cutoffDate h w = Some (clock h - w * msPerDay)"
  using assms by (simp add: cutoffDate_eq TimeClip_def UTC_def LocalTime_def)

text \<open>
  Claim C2 as it is stated bounds \<open>firstSeenAt\<close> from above by \<open>now\<close> as well. The source
  filters on \<open>firstSeenAt >= cutoffDate\<close> alone: a language first seen one millisecond
  after the clock reading is returned.
\<close>

theorem C2_identifyNewLanguages_counterexample:
  "identifyNewLanguages (utcHost 1700000000000) [mkLanguage ''Rust'' 5 1700000000001] 90
     \<noteq> newLanguages_spec 1700000000000 [mkLanguage ''Rust'' 5 1700000000001] 90"
  by (simp add: identifyNewLanguages_def newLanguages_spec_def cutoffDate_eq TimeClip_def
      UTC_def LocalTime_def utcHost_def date_ge_def msPerDay_def mkLanguage_def)

text \<open>
  Claim C2, amended. \<open>identifyNewLanguages\<close> returns exactly the names of the rows whose
  \<open>firstSeenAt\<close> is not before the cutoff, in the order of the input, with no upper bound;
  it returns none when the cutoff is not a valid date. The cutoff is the clock reading of
  the host moved back by the window in local calendar days; where the zone has a fixed
  offset and the result is a valid date it is the clock reading minus
  \<open>windowDays * 86400000\<close> ms.
\<close>

theorem C2_identifyNewLanguages_lower_bound:
  "identifyNewLanguages h languages windowDays =
     map language
       (filter (\<lambda>lang. case cutoffDate h windowDays of None \<Rightarrow> False
                        | Some cutoff \<Rightarrow> cutoff \<le> firstSeenAt lang) languages)
   \<and> ((\<forall>t. localTZA_utc h t = off) \<and> (\<forall>t. localTZA_local h t = off)
        \<and> \<bar>clock h - windowDays * msPerDay\<bar> \<le> 8640000000000000 \<longrightarrow>
        identifyNewLanguages h languages windowDays =
          map language
            (filter (\<lambda>lang. clock h - windowDays * msPerDay \<le> firstSeenAt lang) languages))"
proof (intro conjI impI)
  show "identifyNewLanguages h languages windowDays =
     map language
       (filter (\<lambda>lang. case cutoffDate h windowDays of None \<Rightarrow> False
                        | Some cutoff \<Rightarrow> cutoff \<le> firstSeenAt lang) languages)"
    by (simp add: identifyNewLanguages_def Let_def date_ge_def)
next
  assume a: "(\<forall>t. localTZA_utc h t = off) \<and> (\<forall>t. localTZA_local h t = off)
        \<and> \<bar>clock h - windowDays * msPerDay\<bar> \<le> 8640000000000000"
  then have "cutoffDate h windowDays = Some (clock h - windowDays * msPerDay)"
    using cutoffDate_fixed_offset[of h off windowDays] by blast
  then show "identifyNewLanguages h languages windowDays =
          map language
            (filter (\<lambda>lang. clock h - windowDays * msPerDay \<le> firstSeenAt lang) languages)"
    by (simp add: identifyNewLanguages_def Let_def date_ge_def)
qed

theorem C2_identifyNewLanguages_lower_bound_witness:
  "localTZA_utc (utcHost 1700000000000) = (\<lambda>t. 0)
   \<and> localTZA_local (utcHost 1700000000000) = (\<lambda>t. 0)
   \<and> \<bar>clock (utcHost 1700000000000) - 90 * msPerDay\<bar> \<le> 8640000000000000
   \<and> identifyNewLanguages (utcHost 1700000000000)
        [mkLanguage ''TypeScript'' 50 (1700000000000 - 365 * 86400000),
         mkLanguage ''Rust'' 5 (1700000000000 - 30 * 86400000),
         mkLanguage ''Zig'' 1 (1700000000000 + 86400000),
         mkLanguage ''Go'' 9 (1700000000000 - 90 * 86400000)] 90
       = [''Rust'', ''Zig'', ''Go'']"
proof -
  let ?h = "utcHost 1700000000000"
  have z: "(\<forall>t. localTZA_utc ?h t = 0) \<and> (\<forall>t. localTZA_local ?h t = 0)"
    by (simp add: utcHost_def)
  have c: "\<bar>clock ?h - 90 * msPerDay\<bar> \<le> 8640000000000000"
    by (simp add: utcHost_def msPerDay_def)
  have ck: "clock ?h - 90 * msPerDay = 1692224000000"
    by (simp add: utcHost_def msPerDay_def)
  let ?ls = "[mkLanguage ''TypeScript'' 50 (1700000000000 - 365 * 86400000),
         mkLanguage ''Rust'' 5 (1700000000000 - 30 * 86400000),
         mkLanguage ''Zig'' 1 (1700000000000 + 86400000),
         mkLanguage ''Go'' 9 (1700000000000 - 90 * 86400000)]"
  have pre: "(\<forall>t. localTZA_utc ?h t = 0) \<and> (\<forall>t. localTZA_local ?h t = 0)
        \<and> \<bar>clock ?h - 90 * msPerDay\<bar> \<le> 8640000000000000"
    using z c by blast
  have "identifyNewLanguages ?h ?ls 90 =
          map language (filter (\<lambda>lang. clock ?h - 90 * msPerDay \<le> firstSeenAt lang) ?ls)"
    using C2_identifyNewLanguages_lower_bound[of ?h ?ls 90 0] pre by blast
  then have "identifyNewLanguages ?h ?ls 90 = [''Rust'', ''Zig'', ''Go'']"
    by (simp add: ck mkLanguage_def)
  with z c show ?thesis by (simp add: fun_eq_iff)
qed

text \<open>
  The share of recent commits is rounded in binary64 before \<open>Math.round\<close>: 23 recent
  commits of 40 give 57.49999999999999, hence 57.
\<close>

lemma fl_trend_1: "fl (23 / 40) = 2589569785738035 / 4503599627370496"
proof -
  have "fl (23 / 40) = real_of_int 5179139571476070 / 2 ^ 53"
    by (rule fl_eval_neg) simp_all
  then show ?thesis by simp
qed

lemma fl_trend_2: "fl (64739244643450875 / 1125899906842624) = 8092405580431359 / 140737488355328"
proof -
  have "fl (64739244643450875 / 1125899906842624) = real_of_int 8092405580431359 / 2 ^ 47"
    by (rule fl_eval_neg) simp_all
  then show ?thesis by simp
qed

lemma filter_replicate_const: "filter P (replicate n x) = (if P x then replicate n x else [])"
  by (induction n) simp_all

lemma calculateSkillGrowthTrend_23_of_40:
  "calculateSkillGrowthTrend (utcHost 1700000000000) [mkLanguage ''Rust'' 5 0]
     (replicate 23 (mkCommit 1699000000000 1 10 5 2) @ replicate 17 (mkCommit 0 1 10 5 2)) 90
   = 57"
  by (simp add: calculateSkillGrowthTrend_def cutoffDate_eq TimeClip_def UTC_def LocalTime_def
      utcHost_def date_ge_def msPerDay_def mkLanguage_def mkCommit_def Math_round_def fmul_def
      fdiv_def filter_replicate_const fl_trend_1 fl_trend_2)

text \<open>
  Claim C3 as it is stated makes the result a function of the arguments, \<open>now\<close> among them.
  Neither function has such a parameter: both call \<open>new Date()\<close>. The same arguments give
  different results at different clock readings.
\<close>

theorem C3_ambient_clock_counterexample:
  "identifyNewLanguages (utcHost (30 * 86400000)) [mkLanguage ''Rust'' 5 0] 90
     \<noteq> identifyNewLanguages (utcHost (365 * 86400000)) [mkLanguage ''Rust'' 5 0] 90
   \<and> calculateSkillGrowthTrend (utcHost (30 * 86400000)) [mkLanguage ''Rust'' 5 0]
        [mkCommit 0 1 10 5 2] 90
     \<noteq> calculateSkillGrowthTrend (utcHost (365 * 86400000)) [mkLanguage ''Rust'' 5 0]
        [mkCommit 0 1 10 5 2] 90"
  by (simp add: identifyNewLanguages_def calculateSkillGrowthTrend_def cutoffDate_eq
      TimeClip_def UTC_def LocalTime_def utcHost_def date_ge_def msPerDay_def mkLanguage_def
      mkCommit_def Math_round_def fmul_def fdiv_def)

text \<open>
  The zone is read as well: at the same clock reading, a host in UTC and a host whose
  zone is an hour ahead of UTC now and was not when the window began disagree on a
  language first seen a second into the window.
\<close>

lemma zone_offset_is_read:
  "identifyNewLanguages (utcHost 1700000000000)
     [mkLanguage ''Rust'' 5 (1700000000000 - 90 * 86400000 + 1000)] 90 = [''Rust'']
   \<and> identifyNewLanguages
       \<lparr>clock = 1700000000000, localTZA_utc = (\<lambda>t. 3600000), localTZA_local = (\<lambda>t. 0)\<rparr>
       [mkLanguage ''Rust'' 5 (1700000000000 - 90 * 86400000 + 1000)] 90 = []"
  by (simp add: identifyNewLanguages_def cutoffDate_eq TimeClip_def UTC_def LocalTime_def
      utcHost_def date_ge_def msPerDay_def mkLanguage_def)

text \<open>
  Claim C3, amended. \<open>calculateSkillGrowthTrend\<close> and \<open>identifyNewLanguages\<close> have no
  parameter for the current time: they read the clock of the host, and its time zone.
  Of the host they read the clock, the offset of the zone at that instant and the offset
  of the zone at the local time \<open>windowDays\<close> days earlier, and nothing else: two calls
  with equal arguments on hosts that agree on these three return equal results, however
  the hosts differ otherwise. So do two calls with equal arguments at equal clock
  readings in two zones of fixed offset, whatever the two offsets.
\<close>

theorem C3_determined_by_clock_and_zone_offsets:
  "(clock h1 = clock h2
    \<and> localTZA_utc h1 (clock h1) = localTZA_utc h2 (clock h2)
    \<and> localTZA_local h1 (LocalTime h1 (clock h1) - windowDays * msPerDay) =
        localTZA_local h2 (LocalTime h2 (clock h2) - windowDays * msPerDay)
    \<longrightarrow> identifyNewLanguages h1 languages windowDays =
          identifyNewLanguages h2 languages windowDays
        \<and> calculateSkillGrowthTrend h1 languages commits windowDays =
          calculateSkillGrowthTrend h2 languages commits windowDays)
   \<and> ((\<forall>t. localTZA_utc h1 t = off1) \<and> (\<forall>t. localTZA_local h1 t = off1)
       \<and> (\<forall>t. localTZA_utc h2 t = off2) \<and> (\<forall>t. localTZA_local h2 t = off2)
       \<and> clock h1 = clock h2
    \<longrightarrow> identifyNewLanguages h1 languages windowDays =
          identifyNewLanguages h2 languages windowDays
        \<and> calculateSkillGrowthTrend h1 languages commits windowDays =
          calculateSkillGrowthTrend h2 languages commits windowDays)"
proof (intro conjI impI)
  assume a: "clock h1 = clock h2
    \<and> localTZA_utc h1 (clock h1) = localTZA_utc h2 (clock h2)
    \<and> localTZA_local h1 (LocalTime h1 (clock h1) - windowDays * msPerDay) =
        localTZA_local h2 (LocalTime h2 (clock h2) - windowDays * msPerDay)"
  then have a1: "clock h1 = clock h2"
    and a2: "localTZA_utc h1 (clock h1) = localTZA_utc h2 (clock h2)"
    and a3: "localTZA_local h1 (LocalTime h1 (clock h1) - windowDays * msPerDay) =
        localTZA_local h2 (LocalTime h2 (clock h2) - windowDays * msPerDay)"
    by blast+
  have l: "LocalTime h1 (clock h1) = LocalTime h2 (clock h2)"
    unfolding LocalTime_def using a1 a2 by simp
  have c: "cutoffDate h1 windowDays = cutoffDate h2 windowDays"
    using a3 by (simp add: cutoffDate_eq UTC_def l)
  show "identifyNewLanguages h1 languages windowDays =
          identifyNewLanguages h2 languages windowDays"
    by (simp add: identifyNewLanguages_def c)
  show "calculateSkillGrowthTrend h1 languages commits windowDays =
          calculateSkillGrowthTrend h2 languages commits windowDays"
    by (simp add: calculateSkillGrowthTrend_def c)
next
  assume a: "(\<forall>t. localTZA_utc h1 t = off1) \<and> (\<forall>t. localTZA_local h1 t = off1)
       \<and> (\<forall>t. localTZA_utc h2 t = off2) \<and> (\<forall>t. localTZA_local h2 t = off2)
       \<and> clock h1 = clock h2"
  have c: "cutoffDate h1 windowDays = cutoffDate h2 windowDays"
    using a by (simp add: cutoffDate_eq UTC_def LocalTime_def)
  show "identifyNewLanguages h1 languages windowDays =
          identifyNewLanguages h2 languages windowDays"
    by (simp add: identifyNewLanguages_def c)
  show "calculateSkillGrowthTrend h1 languages commits windowDays =
          calculateSkillGrowthTrend h2 languages commits windowDays"
    by (simp add: calculateSkillGrowthTrend_def c)
qed

theorem C3_determined_by_clock_and_zone_offsets_witness:
  "clock (utcHost 1700000000000) =
     clock \<lparr>clock = 1700000000000,
            localTZA_utc = (\<lambda>t. if t = 1700000000000 then 0 else 3600000),
            localTZA_local = (\<lambda>t. if t = 1692224000000 then 0 else 7200000)\<rparr>
   \<and> localTZA_utc (utcHost 1700000000000) 5 \<noteq>
       localTZA_utc \<lparr>clock = 1700000000000,
            localTZA_utc = (\<lambda>t. if t = 1700000000000 then 0 else 3600000),
            localTZA_local = (\<lambda>t. if t = 1692224000000 then 0 else 7200000)\<rparr> 5
   \<and> identifyNewLanguages (utcHost 1700000000000) [mkLanguage ''Rust'' 5 1699000000000] 90 =
       identifyNewLanguages
         \<lparr>clock = 1700000000000,
            localTZA_utc = (\<lambda>t. if t = 1700000000000 then 0 else 3600000),
            localTZA_local = (\<lambda>t. if t = 1692224000000 then 0 else 7200000)\<rparr>
         [mkLanguage ''Rust'' 5 1699000000000] 90
   \<and> calculateSkillGrowthTrend (utcHost 1700000000000) [mkLanguage ''Rust'' 5 1699000000000]
         [mkCommit 1699000000000 1 10 5 2] 90 =
       calculateSkillGrowthTrend
         \<lparr>clock = 1700000000000,
            localTZA_utc = (\<lambda>t. if t = 1700000000000 then 0 else 3600000),
            localTZA_local = (\<lambda>t. if t = 1692224000000 then 0 else 7200000)\<rparr>
         [mkLanguage ''Rust'' 5 1699000000000] [mkCommit 1699000000000 1 10 5 2] 90
   \<and> identifyNewLanguages (utcHost 1700000000000) [mkLanguage ''Rust'' 5 1699000000000] 90 =
       identifyNewLanguages
         \<lparr>clock = 1700000000000, localTZA_utc = (\<lambda>t. 19800000),
            localTZA_local = (\<lambda>t. 19800000)\<rparr>
         [mkLanguage ''Rust'' 5 1699000000000] 90"
proof -
  let ?h1 = "utcHost 1700000000000"
  let ?h2 = "\<lparr>clock = 1700000000000,
            localTZA_utc = (\<lambda>t. if t = 1700000000000 then 0 else 3600000),
            localTZA_local = (\<lambda>t. if t = 1692224000000 then 0 else (7200000::int))\<rparr>"
  let ?h3 = "\<lparr>clock = 1700000000000, localTZA_utc = (\<lambda>t. 19800000),
            localTZA_local = (\<lambda>t. (19800000::int))\<rparr>"
  let ?ls = "[mkLanguage ''Rust'' 5 1699000000000]"
  let ?cs = "[mkCommit 1699000000000 1 10 5 2]"
  have c: "clock ?h1 = clock ?h2" by (simp add: utcHost_def)
  have d: "localTZA_utc ?h1 5 \<noteq> localTZA_utc ?h2 5" by (simp add: utcHost_def)
  have a: "clock ?h1 = clock ?h2
    \<and> localTZA_utc ?h1 (clock ?h1) = localTZA_utc ?h2 (clock ?h2)
    \<and> localTZA_local ?h1 (LocalTime ?h1 (clock ?h1) - 90 * msPerDay) =
        localTZA_local ?h2 (LocalTime ?h2 (clock ?h2) - 90 * msPerDay)"
    by (simp add: utcHost_def LocalTime_def msPerDay_def)
  have b: "(\<forall>t. localTZA_utc ?h1 t = 0) \<and> (\<forall>t. localTZA_local ?h1 t = 0)
       \<and> (\<forall>t. localTZA_utc ?h3 t = 19800000) \<and> (\<forall>t. localTZA_local ?h3 t = 19800000)
       \<and> clock ?h1 = clock ?h3"
    by (simp add: utcHost_def)
  have 1: "identifyNewLanguages ?h1 ?ls 90 = identifyNewLanguages ?h2 ?ls 90
           \<and> calculateSkillGrowthTrend ?h1 ?ls ?cs 90 = calculateSkillGrowthTrend ?h2 ?ls ?cs 90"
    using C3_determined_by_clock_and_zone_offsets[of ?h1 ?h2 90 ?ls ?cs 0 0] a by blast
  have 2: "identifyNewLanguages ?h1 ?ls 90 = identifyNewLanguages ?h3 ?ls 90"
    using C3_determined_by_clock_and_zone_offsets[of ?h1 ?h3 90 ?ls ?cs 0 19800000] b by blast
  from c d 1 2 show ?thesis by blast
qed

end
